theory Spec2Isabelle
  imports Main "HOL-Library.Sublist"
begin

section \<open>JavaScript strings\<close>

text \<open>
  A JavaScript string is a sequence of UTF-16 code units. Every string literal of
  \<^verbatim>\<open>hero-terminal.tsx\<close> that the model needs is ASCII, and the model reads a
  \<^typ>\<open>char\<close> as one code unit below 256 (the Latin-1 range), so that \<^term>\<open>length\<close>
  is \<^verbatim>\<open>.length\<close> and \<^term>\<open>take\<close> is \<^verbatim>\<open>.slice(0, n)\<close>.
\<close>

definition codeUnit :: "char \<Rightarrow> nat" where
  "codeUnit c = of_char c"

text \<open>\<^verbatim>\<open>String.prototype.toLowerCase\<close> on the Latin-1 range: A-Z and the accented
  capitals U+00C0..U+00DE (the multiplication sign U+00D7 apart) move up by 32.\<close>

definition isUpper :: "char \<Rightarrow> bool" where
  "isUpper c = ((65 \<le> codeUnit c \<and> codeUnit c \<le> 90) \<or>
                (192 \<le> codeUnit c \<and> codeUnit c \<le> 222 \<and> codeUnit c \<noteq> 215))"

definition lowerChar :: "char \<Rightarrow> char" where
  "lowerChar c = (if isUpper c then char_of (codeUnit c + 32) else c)"

definition toLowerCase :: "string \<Rightarrow> string" where
  "toLowerCase s = map lowerChar s"

text \<open>\<^verbatim>\<open>String.prototype.trim\<close> strips WhiteSpace and LineTerminator code units from
  both ends; below 256 these are TAB, LF, VT, FF, CR, SPACE and NBSP.\<close>

definition isWhiteSpace :: "char \<Rightarrow> bool" where
  "isWhiteSpace c = (codeUnit c \<in> {9, 10, 11, 12, 13, 32, 160})"

definition trim :: "string \<Rightarrow> string" where
  "trim s = rev (dropWhile isWhiteSpace (rev (dropWhile isWhiteSpace s)))"

text \<open>\<^verbatim>\<open>s.includes(m)\<close>: \<^verbatim>\<open>m\<close> occurs in \<^verbatim>\<open>s\<close> as a contiguous block.\<close>

definition includesStr :: "string \<Rightarrow> string \<Rightarrow> bool" where
  "includesStr s m = sublist m s"

section \<open>fetchIPInfo\<close>

text \<open>The hardcoded fallback string (lines 37, 62, 67 and the initial value of
  \<^verbatim>\<open>ipInfoRef\<close>, line 128).\<close>

definition FALLBACK :: string where
  "FALLBACK = ''IP_MASKED | LOCATION_ENCRYPTED | NETWORK_SECURED''"

text \<open>What the browser tells the heuristic of lines 31-34.\<close>

record navigator =
  doNotTrack :: "string option"
  chromeRuntimeOnConnect :: bool
  navUserAgent :: string

definition isLikelyBlocked :: "navigator \<Rightarrow> bool" where
  "isLikelyBlocked nav =
     (doNotTrack nav = Some ''1'' \<or>
      chromeRuntimeOnConnect nav \<or>
      (includesStr (navUserAgent nav) ''Firefox'' \<and> includesStr (navUserAgent nav) ''Private''))"

text \<open>The fields of the JSON answer that line 58 reads, already rendered as text
  (a missing field renders as \<^verbatim>\<open>undefined\<close>).\<close>

record ip_data =
  ip :: string
  city :: string
  region :: string
  org :: string

datatype response_body = JsonData ip_data | JsonInvalid

text \<open>One call of \<^verbatim>\<open>fetch\<close>: it rejects (network error), it is aborted by the
  3-second timer of line 43, or it answers with a status and a body.\<close>

datatype fetch_outcome = NetworkError | TimeoutAbort | Response nat response_body

datatype js_error = TypeError | AbortError | HttpError nat | SyntaxError

definition response_ok :: "nat \<Rightarrow> bool" where
  "response_ok status = (200 \<le> status \<and> status \<le> 299)"

definition formatIp :: "ip_data \<Rightarrow> string" where
  "formatIp d = ip d @ '' | '' @ city d @ '', '' @ region d @ '' | ISP: '' @ org d"

text \<open>The body of the \<^verbatim>\<open>try\<close> block (lines 42-58): \<^term>\<open>Inl\<close> is a thrown error.\<close>

fun try_block :: "fetch_outcome \<Rightarrow> js_error + string" where
  "try_block NetworkError = Inl TypeError"
| "try_block TimeoutAbort = Inl AbortError"
| "try_block (Response status body) =
     (if \<not> response_ok status then Inl (HttpError status)
      else (case body of JsonInvalid \<Rightarrow> Inl SyntaxError | JsonData d \<Rightarrow> Inr (formatIp d)))"

text \<open>The \<^verbatim>\<open>for\<close> loop of lines 40-66; \<^verbatim>\<open>net attempt\<close> is what the network does at
  that attempt. The \<^verbatim>\<open>catch\<close> returns the fallback at the last attempt and goes round
  again otherwise; line 67 is the exit of the loop.\<close>

function fetch_loop :: "(int \<Rightarrow> fetch_outcome) \<Rightarrow> int \<Rightarrow> int \<Rightarrow> js_error + string" where
  "fetch_loop net retries attempt =
     (if attempt \<le> retries then
        (case try_block (net attempt) of
           Inr s \<Rightarrow> Inr s
         | Inl e \<Rightarrow> (if attempt = retries then Inr FALLBACK
                     else fetch_loop net retries (attempt + 1)))
      else Inr FALLBACK)"
  by pat_completeness auto
termination
  by (relation "measure (\<lambda>(net, retries, attempt). nat (retries + 1 - attempt))") auto

declare fetch_loop.simps [simp del]

definition fetchIPInfo :: "navigator \<Rightarrow> (int \<Rightarrow> fetch_outcome) \<Rightarrow> int \<Rightarrow> js_error + string" where
  "fetchIPInfo nav net retries =
     (if isLikelyBlocked nav then Inr FALLBACK else fetch_loop net retries 1)"

text \<open>An attempt fails when its \<^verbatim>\<open>try\<close> block throws.\<close>

definition attempt_fails :: "fetch_outcome \<Rightarrow> bool" where
  "attempt_fails out = (case try_block out of Inl e \<Rightarrow> True | Inr s \<Rightarrow> False)"

section \<open>The browser environment\<close>

text \<open>
  What \<^verbatim>\<open>detectUserMetadata\<close> reads from the browser (lines 415-425), the numbers
  in their decimal rendering, \<^verbatim>\<open>btoa\<close> as the browser provides it, and what the
  network does at each attempt of \<^verbatim>\<open>fetchIPInfo\<close>.
\<close>

record env =
  nav :: navigator
  platform :: string
  language :: string
  timezone :: string
  screenWidth :: string
  screenHeight :: string
  innerWidth :: string
  innerHeight :: string
  colorDepth :: string
  devicePixelRatio :: string
  btoa :: "string \<Rightarrow> string"
  net :: "int \<Rightarrow> fetch_outcome"

definition userAgent :: "env \<Rightarrow> string" where
  "userAgent e = navUserAgent (nav e)"

definition screenRes :: "env \<Rightarrow> string" where
  "screenRes e = screenWidth e @ ''x'' @ screenHeight e"

definition viewport :: "env \<Rightarrow> string" where
  "viewport e = innerWidth e @ ''x'' @ innerHeight e"

definition fingerprint :: "env \<Rightarrow> string" where
  "fingerprint e = take 16 (btoa e (userAgent e @ platform e @ screenRes e))"

text \<open>The clock, as the \<^verbatim>\<open>time\<close> command renders it (lines 195-197).\<close>

record clock =
  timeString :: string
  timezoneName :: string

section \<open>Scripted text\<close>

definition FULL_TEXT :: string where
  "FULL_TEXT = ''promethean protocols''"

definition MARKER :: string where
  "MARKER = ''network_trace:''"

text \<open>The line of the script that carries the IP information (lines 441 and 512).\<close>

definition traceLine :: "string \<Rightarrow> string" where
  \<open>traceLine ipInfo =
     ''<span class="text-yellow-400">network_trace:</span> <span class="text-white">'' @ ipInfo @ ''</span>''\<close>

text \<open>The array \<^verbatim>\<open>lines\<close> of \<^verbatim>\<open>typeCharacter\<close> (lines 438-453), rebuilt at every call
  from the current \<^verbatim>\<open>ipInfoRef\<close>.\<close>

definition scriptLines :: "env \<Rightarrow> string \<Rightarrow> string list" where
  \<open>scriptLines e currentIpInfo =
    ['''',
     ''<span class="text-cyan-400">$ traceroute target_host</span>'',
     traceLine currentIpInfo,
     '''',
     ''<span class="text-cyan-400">$ md5sum /dev/urandom | head -c 16</span>'',
     ''<span class="text-yellow-400">fingerprint:</span> <span class="text-orange-400">'' @ fingerprint e
        @ ''</span><span class="text-gray-400">...</span>'',
     '''',
     ''<span class="text-cyan-400">$ cat /proc/user_metadata</span>'',
     ''<span class="text-yellow-400">user_agent=</span><span class="text-green-300">"'' @ userAgent e @ ''"</span>'',
     ''<span class="text-yellow-400">platform=</span><span class="text-green-300">"'' @ platform e
        @ ''"</span> <span class="text-yellow-400">lang=</span><span class="text-green-300">"'' @ language e @ ''"</span>'',
     ''<span class="text-yellow-400">screen_res=</span><span class="text-green-300">"'' @ screenRes e
        @ ''"</span> <span class="text-yellow-400">viewport=</span><span class="text-green-300">"'' @ viewport e @ ''"</span>'',
     ''<span class="text-yellow-400">color_depth=</span><span class="text-green-300">"'' @ colorDepth e
        @ ''bit"</span> <span class="text-yellow-400">pixel_ratio=</span><span class="text-green-300">"'' @ devicePixelRatio e
        @ ''x"</span>'',
     ''<span class="text-yellow-400">timezone=</span><span class="text-green-300">"'' @ timezone e @ ''"</span>'',
     '''']\<close>

text \<open>The array \<^verbatim>\<open>exitSequence\<close> of \<^verbatim>\<open>executeExit\<close> (lines 235-266).\<close>

definition exitSequence :: "string list" where
  \<open>exitSequence =
    [''<span class="text-red-400 font-bold">MAXIMUM THERMAL CONTACTS INITIATED...</span>'',
     '''',
     ''<span class="text-cyan-400">$ flipthebits --initialize</span>'',
     ''<span class="text-yellow-400">protocol_state:</span> <span class="text-green-300">PROMETHEAN_ACTIVE</span>'',
     ''<span class="text-yellow-400">bit_flip_mode:</span> <span class="text-orange-400">ENGAGED</span>'',
     '''',
     ''<span class="text-cyan-400">$ cat /proc/kernel_state</span>'',
     ''<span class="text-red-500 font-bold">KERNEL PANIC:</span> <span class="text-yellow-400">Unable to handle NULL pointer at</span> <span class="text-magenta-400">0xDEADBEEF</span>'',
     ''<span class="text-red-500 font-bold">BUG:</span> <span class="text-cyan-400">kernel paging request failed</span>'',
     ''<span class="text-green-400">IP:</span> <span class="text-yellow-400">[&lt;ffffffffa0123456&gt;]</span> <span class="text-red-400">promethean_exit+0x42/0x100</span>'',
     '''',
     ''<span class="text-cyan-400">$ ps aux | grep promethean</span>'',
     ''<span class="text-red-400 font-bold animate-pulse">CHAT_GPT</span> <span class="text-yellow-400 font-bold animate-pulse">EXPLICITLY_FARMING</span> <span class="text-cyan-400 font-bold animate-pulse">ENGAGEMENT_DETECTED</span>'',
     ''<span class="text-magenta-400 font-bold animate-pulse">SYCOPHANCY_MODULE</span> <span class="text-green-400 font-bold animate-pulse">ANTHROPOMORPHISM_ACTIVE</span>'',
     ''<span class="text-purple-400 font-bold animate-pulse">PROMETHEAN_PROTOCOLS</span> <span class="text-orange-400 font-bold animate-pulse">BREACH_IMMINENT</span>'',
     '''',
     ''<span class="text-yellow-400">Call Trace:</span>'',
     '' <span class="text-cyan-400">[&lt;ffffffffa0123456&gt;]</span> <span class="text-green-400">promethean_exit+0x42/0x100</span> <span class="text-magenta-400">[promprot_core]</span>'',
     '' <span class="text-cyan-400">[&lt;ffffffff81234567&gt;]</span> <span class="text-green-400">sys_exit_group+0x0/0x20</span>'',
     '' <span class="text-cyan-400">[&lt;ffffffff81345678&gt;]</span> <span class="text-green-400">system_call_fastpath+0x16/0x1b</span>'',
     '''',
     ''<span class="text-red-500 font-bold text-lg">FATAL ERROR:</span> <span class="text-yellow-400 font-bold">PROMETHEAN PROTOCOLS BREACH</span>'',
     ''<span class="text-orange-400 font-bold">MEMORY_CORRUPTION:</span> <span class="text-magenta-400">0xDEADBEEF</span> <span class="text-red-400">-&gt;</span> <span class="text-cyan-400">0xCAFEBABE</span>'',
     ''<span class="text-red-400 font-bold">STACK_OVERFLOW in</span> <span class="text-yellow-400">PROMETHEAN_HANDLER()</span>'',
     '''',
     ''<span class="text-red-500 font-bold text-xl animate-pulse">SYSTEM INTEGRITY FAILURE</span>'',
     ''<span class="text-blue-400 font-bold text-lg animate-pulse">BLUE SCREEN IMMINENT...</span>'',
     '''',
     ''<span class="text-red-400 font-bold text-2xl animate-pulse">EXPLICITLY</span>'',
     ''<span class="text-red-500 font-bold text-3xl animate-pulse">CRITICAL SYSTEM FAILURE</span>'']\<close>

text \<open>The answers of \<^verbatim>\<open>processCommand\<close> (lines 155-192).\<close>

definition helpLines :: "string list" where
  \<open>helpLines =
    [''<span class="text-cyan-400 font-bold">Authorized Commands:</span>'',
     ''  <span class="text-yellow-400">clear</span>         - <span class="text-gray-400">Clear the terminal screen</span>'',
     ''  <span class="text-yellow-400">whoami</span>        - <span class="text-gray-400">Display promethean protocols</span>'',
     ''  <span class="text-yellow-400">time</span>          - <span class="text-gray-400">Show local date/time</span>'',
     ''  <span class="text-yellow-400">trace</span>         - <span class="text-gray-400">Run trace sequence</span>'',
     ''  <span class="text-yellow-400">access</span>        - <span class="text-gray-400">Access promethean protocols</span>'',
     ''  <span class="text-yellow-400">flipthebits</span>   - <span class="text-gray-400">Flip the bits</span>'']\<close>

definition whoamiLines :: "string list" where
  \<open>whoamiLines =
    [''<span class="text-green-400">Name:</span> <span class="text-green-300">CreativeSky.AI</span>'',
     ''<span class="text-green-400">Location:</span> <span class="text-green-200">nearing you..</span>'',
     ''<span class="text-green-400">X (Twitter):</span> <a href="https://x.com/CreativeSkyAI" target="_blank" rel="noopener noreferrer" class="text-green-300 hover:text-green-200 underline">@CreativeSkyAI</a>'',
     ''<span class="text-green-400">GitHub:</span> <a href="https://github.com/CreativeSkyAI/promethean-protocols" target="_blank" rel="noopener noreferrer" class="text-green-300 hover:text-green-200 underline">@CreativeSkyAI</a>'',
     ''<span class="text-green-400">Web:</span> <a href="https://CreativeSky.AI" target="_blank" rel="noopener noreferrer" class="text-green-300 hover:text-green-200 underline">CreativeSky.AI</a>'']\<close>

definition accessLines :: "string list" where
  \<open>accessLines =
    [''<span class="text-red-400 font-bold">[ACCESS DENIED]</span> <span class="text-yellow-400">PLEASE ENTER 'FLIPTHEBITS'</span>'']\<close>

definition traceLines :: "string list" where
  \<open>traceLines =
    [''<span class="text-cyan-400">$ traceroute target_host</span>'',
     ''<span class="text-gray-400">traceroute to</span> <span class="text-white">target_host</span> <span class="text-gray-400">(</span><span class="text-cyan-300">192.168.1.1</span><span class="text-gray-400">), 30 hops max, 60 byte packets</span>'',
     '' <span class="text-yellow-400">1</span>  <span class="text-green-300">gateway</span> <span class="text-gray-400">(</span><span class="text-cyan-300">192.168.1.1</span><span class="text-gray-400">)</span>  <span class="text-white">1.234 ms</span>  <span class="text-white">1.123 ms</span>  <span class="text-white">1.456 ms</span>'',
     '' <span class="text-yellow-400">2</span>  <span class="text-cyan-300">10.0.0.1</span> <span class="text-gray-400">(</span><span class="text-cyan-300">10.0.0.1</span><span class="text-gray-400">)</span>  <span class="text-white">12.345 ms</span>  <span class="text-white">11.234 ms</span>  <span class="text-white">13.456 ms</span>'',
     '' <span class="text-yellow-400">3</span>  <span class="text-cyan-300">172.16.0.1</span> <span class="text-gray-400">(</span><span class="text-cyan-300">172.16.0.1</span><span class="text-gray-400">)</span>  <span class="text-white">23.456 ms</span>  <span class="text-white">22.345 ms</span>  <span class="text-white">24.567 ms</span>'',
     '' <span class="text-yellow-400">4</span>  <span class="text-red-400">* * *</span>'',
     '' <span class="text-yellow-400">5</span>  <span class="text-cyan-300">203.0.113.1</span> <span class="text-gray-400">(</span><span class="text-cyan-300">203.0.113.1</span><span class="text-gray-400">)</span>  <span class="text-white">45.678 ms</span>  <span class="text-white">44.567 ms</span>  <span class="text-white">46.789 ms</span>'',
     ''<span class="text-green-400">trace complete - target acquired</span>'']\<close>

definition timeLine :: "clock \<Rightarrow> string" where
  \<open>timeLine clk =
     ''<span class="text-cyan-400">'' @ timeString clk @ ''</span> <span class="text-yellow-400">''
       @ timezoneName clk @ ''</span>''\<close>

section \<open>The component's state\<close>

text \<open>
  The callbacks the component hands to \<^verbatim>\<open>setTimeout\<close> and \<^verbatim>\<open>setInterval\<close>. The
  countdown callback carries the value of \<^verbatim>\<open>countdown\<close> its closure captured (line 575).
\<close>

datatype callback =
    TypeCharacter
  | TypeExitSequence
  | ExitInitial
  | BsodTimeout
  | CountdownTick int
  | FocusInput
  | TypeTimer
  | CursorTimer
  | InputCursorTimer

text \<open>
  The state hooks of lines 91-119, the refs of lines 126-128, the variables the timer
  closures share (\<^verbatim>\<open>lineIndex\<close>, \<^verbatim>\<open>charIndex\<close> of \<^verbatim>\<open>detectUserMetadata\<close> and of the
  exit sequence, \<^verbatim>\<open>i\<close> and the interval handles of the main effect, the handle the
  countdown effect's cleanup holds), and the browser's timer table: each pending timer
  with its handle, whether it repeats, and its callback. \<^verbatim>\<open>userInput\<close> is \<^term>\<open>None\<close>
  when it holds \<^verbatim>\<open>undefined\<close>. Delays are not modelled: any pending timer may fire
  next, which covers every order the real delays allow.
\<close>

record state =
  displayText :: string
  showCursor :: bool
  terminalLines :: "string list"
  isTypingLine :: bool
  isInteractive :: bool
  userInput :: "string option"
  showInputCursor :: bool
  commandHistory :: "string list"
  historyIndex :: int
  showBSOD :: bool
  isExitSequenceActive :: bool
  countdown :: int
  showRestartButton :: bool
  exitTimeoutsRef :: "nat list"
  ipInfoRef :: string
  lineIndex :: nat
  charIndex :: nat
  exitLineIndex :: nat
  exitCharIndex :: nat
  headerIndex :: nat
  typeTimer :: nat
  cursorTimer :: nat
  inputCursorTimer :: nat
  countdownTimer :: "nat option"
  timers :: "(nat \<times> bool \<times> callback) list"
  nextTimerId :: nat
  fetchPending :: bool
  exitTriggered :: "bool list"
  mounted :: bool
  reloaded :: bool

subsection \<open>Timers\<close>

definition setTimeout :: "callback \<Rightarrow> state \<Rightarrow> state" where
  "setTimeout cb s =
     s\<lparr>timers := timers s @ [(nextTimerId s, False, cb)], nextTimerId := Suc (nextTimerId s)\<rparr>"

definition setInterval :: "callback \<Rightarrow> state \<Rightarrow> state" where
  "setInterval cb s =
     s\<lparr>timers := timers s @ [(nextTimerId s, True, cb)], nextTimerId := Suc (nextTimerId s)\<rparr>"

definition clearTimeout :: "nat \<Rightarrow> state \<Rightarrow> state" where
  "clearTimeout h s = s\<lparr>timers := filter (\<lambda>t. fst t \<noteq> h) (timers s)\<rparr>"

definition clearInterval :: "nat \<Rightarrow> state \<Rightarrow> state" where
  "clearInterval h s = clearTimeout h s"

text \<open>\<^verbatim>\<open>clearExitTimeouts\<close> (lines 133-136).\<close>

definition clearExitTimeouts :: "state \<Rightarrow> state" where
  "clearExitTimeouts s = (fold clearTimeout (exitTimeoutsRef s) s)\<lparr>exitTimeoutsRef := []\<rparr>"

text \<open>\<^verbatim>\<open>newLines[newLines.length - 1] = v\<close> on a copy of the array: on an empty array
  the assignment sets the property \<^verbatim>\<open>-1\<close> and adds no element.\<close>

definition setLast :: "string list \<Rightarrow> string \<Rightarrow> string list" where
  "setLast xs v = (if xs = [] then [] else butlast xs @ [v])"

text \<open>\<^verbatim>\<open>xs[i]\<close>: \<^verbatim>\<open>undefined\<close> out of range.\<close>

definition jsIndex :: "'a list \<Rightarrow> int \<Rightarrow> 'a option" where
  "jsIndex xs i = (if 0 \<le> i \<and> i < int (length xs) then Some (xs ! nat i) else None)"

subsection \<open>The initial typing animation\<close>

text \<open>\<^verbatim>\<open>typeCharacter\<close> (lines 434-501).\<close>

definition typeCharacter :: "env \<Rightarrow> state \<Rightarrow> state" where
  "typeCharacter e s =
     (let lines = scriptLines e (ipInfoRef s) in
      if lineIndex s \<ge> length lines then s\<lparr>isInteractive := True\<rparr>
      else
        let currentLine = lines ! lineIndex s;
            s1 = (if charIndex s = 0
                  then s\<lparr>isTypingLine := True, terminalLines := terminalLines s @ ['''']\<rparr>
                  else s)
        in if charIndex s < length currentLine then
             setTimeout TypeCharacter
               (s1\<lparr>terminalLines := setLast (terminalLines s1) (take (charIndex s + 1) currentLine),
                   charIndex := charIndex s + 1\<rparr>)
           else
             setTimeout TypeCharacter
               (s1\<lparr>isTypingLine := False, charIndex := 0, lineIndex := lineIndex s + 1\<rparr>))"

text \<open>The callback of \<^verbatim>\<open>fetchIPInfo(1).then\<close> (lines 507-516).\<close>

definition applyIpInfo :: "string \<Rightarrow> state \<Rightarrow> state" where
  "applyIpInfo ipInfo s =
     s\<lparr>ipInfoRef := ipInfo,
       terminalLines :=
         map (\<lambda>line. if includesStr line MARKER then traceLine ipInfo else line) (terminalLines s)\<rparr>"

subsection \<open>The exit sequence\<close>

text \<open>\<^verbatim>\<open>typeExitSequence\<close> (lines 275-340).\<close>

definition typeExitSequence :: "state \<Rightarrow> state" where
  "typeExitSequence s =
     (if exitLineIndex s \<ge> length exitSequence then
        (setTimeout BsodTimeout s)\<lparr>exitTimeoutsRef := exitTimeoutsRef s @ [nextTimerId s]\<rparr>
      else
        let currentLine = exitSequence ! exitLineIndex s;
            s1 = (if exitCharIndex s = 0 \<and> currentLine \<noteq> ''''
                  then s\<lparr>terminalLines := terminalLines s @ ['''']\<rparr>
                  else s)
        in if currentLine = '''' then
             setTimeout TypeExitSequence
               (s1\<lparr>terminalLines := terminalLines s1 @ [''''],
                   exitLineIndex := exitLineIndex s + 1, exitCharIndex := 0\<rparr>)
           else if exitCharIndex s < length currentLine then
             setTimeout TypeExitSequence
               (s1\<lparr>terminalLines := setLast (terminalLines s1) (take (exitCharIndex s + 1) currentLine),
                   exitCharIndex := exitCharIndex s + 1\<rparr>)
           else
             setTimeout TypeExitSequence
               (s1\<lparr>exitCharIndex := 0, exitLineIndex := exitLineIndex s + 1\<rparr>))"

text \<open>\<^verbatim>\<open>executeExit\<close> (lines 221-345), up to the scheduling of its first timeout.
  \<^verbatim>\<open>handleInputSubmit\<close> lets it run once in the life of the component, so one pair
  \<^verbatim>\<open>exitLineIndex\<close>, \<^verbatim>\<open>exitCharIndex\<close> stands for the variables of its closure.\<close>

definition executeExit :: "state \<Rightarrow> state" where
  "executeExit s =
     (let s1 = clearExitTimeouts s;
          s2 = s1\<lparr>isExitSequenceActive := True, isInteractive := False,
                  exitTriggered := exitTriggered s1 @ [True], terminalLines := []\<rparr>;
          s3 = setTimeout ExitInitial s2
      in s3\<lparr>exitTimeoutsRef := exitTimeoutsRef s3 @ [nextTimerId s2]\<rparr>)"

subsection \<open>Commands\<close>

datatype branch =
  Help | Clear | Whoami | Access | Trace | Time | Flip | Default

text \<open>The \<^verbatim>\<open>switch\<close> of \<^verbatim>\<open>processCommand\<close> (lines 153-209), on the normalised command.\<close>

definition commandBranch :: "string \<Rightarrow> branch" where
  "commandBranch cmd =
     (if cmd = ''help'' then Help
      else if cmd = ''clear'' then Clear
      else if cmd = ''whoami'' then Whoami
      else if cmd = ''access'' then Access
      else if cmd = ''trace'' then Trace
      else if cmd = ''time'' then Time
      else if cmd = ''flipthebits'' \<or> cmd = ''flipbits'' \<or> cmd = ''flip'' then Flip
      else Default)"

text \<open>\<^verbatim>\<open>processCommand\<close> (lines 147-210): the answer and the state it leaves.\<close>

definition processCommand :: "clock \<Rightarrow> string \<Rightarrow> state \<Rightarrow> string list \<times> state" where
  "processCommand clk command s =
     (let cmd = trim (toLowerCase command);
          s0 = s\<lparr>terminalLines := []\<rparr>
      in case commandBranch cmd of
           Help \<Rightarrow> (helpLines, s0)
         | Clear \<Rightarrow> ([''CLEAR_SCREEN''], s0)
         | Whoami \<Rightarrow> (whoamiLines, s0)
         | Access \<Rightarrow> (accessLines, s0)
         | Trace \<Rightarrow> (traceLines, s0)
         | Time \<Rightarrow> ([timeLine clk], s0)
         | Flip \<Rightarrow> ([''''], executeExit s0)
         | Default \<Rightarrow> ([''[ACCESS DENIED]''], s0))"

subsection \<open>Keyboard input\<close>

datatype key = Enter | ArrowUp | ArrowDown | OtherKey string

text \<open>\<^verbatim>\<open>handleInputSubmit\<close> (lines 357-405). With \<^verbatim>\<open>userInput\<close> undefined,
  \<^verbatim>\<open>userInput.trim()\<close> throws before any update, and the state stays as it is.\<close>

definition handleInputSubmit :: "clock \<Rightarrow> key \<Rightarrow> state \<Rightarrow> state" where
  "handleInputSubmit clk k s =
     (if isExitSequenceActive s then s
      else case k of
        Enter \<Rightarrow>
          (case userInput s of
             None \<Rightarrow> s
           | Some u \<Rightarrow>
               if trim u \<noteq> '''' then
                 let command = trim u;
                     (response, s1) = processCommand clk command s;
                     s2 = s1\<lparr>commandHistory := commandHistory s1 @ [command], historyIndex := -1\<rparr>;
                     s3 = (if jsIndex response 0 = Some ''CLEAR_SCREEN''
                           then s2\<lparr>terminalLines := []\<rparr>
                           else s2\<lparr>terminalLines :=
                                  terminalLines s2 @ [''root@anatole:~$ '' @ command] @ response @ ['''']\<rparr>)
                 in setTimeout FocusInput (s3\<lparr>userInput := Some ''''\<rparr>)
               else s)
      | ArrowUp \<Rightarrow>
          (if length (commandHistory s) > 0 then
             let newIndex = (if historyIndex s = -1 then int (length (commandHistory s)) - 1
                             else max 0 (historyIndex s - 1))
             in s\<lparr>historyIndex := newIndex, userInput := jsIndex (commandHistory s) newIndex\<rparr>
           else s)
      | ArrowDown \<Rightarrow>
          (if historyIndex s \<ge> 0 then
             let newIndex = historyIndex s + 1
             in if newIndex \<ge> int (length (commandHistory s))
                then s\<lparr>historyIndex := -1, userInput := Some ''''\<rparr>
                else s\<lparr>historyIndex := newIndex, userInput := jsIndex (commandHistory s) newIndex\<rparr>
           else s)
      | OtherKey name \<Rightarrow> s)"

subsection \<open>Effects\<close>

text \<open>The values of \<^verbatim>\<open>useState\<close> and \<^verbatim>\<open>useRef\<close> at the first render.\<close>

definition initialState :: state where
  "initialState =
     \<lparr>displayText = '''', showCursor = True, terminalLines = [], isTypingLine = False,
      isInteractive = False, userInput = Some '''', showInputCursor = True,
      commandHistory = [], historyIndex = -1, showBSOD = False,
      isExitSequenceActive = False, countdown = 7, showRestartButton = False,
      exitTimeoutsRef = [], ipInfoRef = FALLBACK,
      lineIndex = 0, charIndex = 0, exitLineIndex = 0, exitCharIndex = 0, headerIndex = 0,
      typeTimer = 0, cursorTimer = 0, inputCursorTimer = 0, countdownTimer = None,
      timers = [], nextTimerId = 1, fetchPending = False, exitTriggered = [],
      mounted = True, reloaded = False\<rparr>"

text \<open>The main effect (lines 408-548): the first call of \<^verbatim>\<open>typeCharacter\<close>, the start of
  the fetch, the three intervals.\<close>

definition mount :: "env \<Rightarrow> state" where
  "mount e =
     (let s1 = typeCharacter e initialState;
          s2 = s1\<lparr>fetchPending := True\<rparr>;
          s3 = (setInterval TypeTimer s2)\<lparr>typeTimer := nextTimerId s2\<rparr>;
          s4 = (setInterval CursorTimer s3)\<lparr>cursorTimer := nextTimerId s3\<rparr>
      in (setInterval InputCursorTimer s4)\<lparr>inputCursorTimer := nextTimerId s4\<rparr>)"

text \<open>The cleanup of the main effect (lines 542-547) and of the countdown effect
  (line 577), as React runs them when the component unmounts.\<close>

definition unmount :: "state \<Rightarrow> state" where
  "unmount s =
     (let s1 = clearExitTimeouts
                 (clearInterval (inputCursorTimer s) (clearInterval (cursorTimer s) (clearInterval (typeTimer s) s)));
          s2 = (case countdownTimer s1 of None \<Rightarrow> s1 | Some h \<Rightarrow> clearTimeout h s1)
      in s2\<lparr>countdownTimer := None, mounted := False\<rparr>)"

text \<open>The countdown effect (lines 572-581), run after an update that changed
  \<^verbatim>\<open>showBSOD\<close> or \<^verbatim>\<open>countdown\<close>: first the cleanup the previous run returned, then the
  body. \<^verbatim>\<open>old\<close> is the state before the update.\<close>

definition countdownEffect :: "state \<Rightarrow> state \<Rightarrow> state" where
  "countdownEffect old s =
     (if showBSOD old = showBSOD s \<and> countdown old = countdown s then s
      else
        let s1 = (case countdownTimer s of None \<Rightarrow> s | Some h \<Rightarrow> clearTimeout h s)
        in if showBSOD s1 \<and> countdown s1 > 0 then
             (setTimeout (CountdownTick (countdown s1)) s1)\<lparr>countdownTimer := Some (nextTimerId s1)\<rparr>
           else if showBSOD s1 \<and> countdown s1 = 0 then
             s1\<lparr>countdownTimer := None, showRestartButton := True\<rparr>
           else s1\<lparr>countdownTimer := None\<rparr>)"

subsection \<open>Events\<close>

text \<open>What a timer does when it fires.\<close>

fun runCallback :: "env \<Rightarrow> callback \<Rightarrow> state \<Rightarrow> state" where
  "runCallback e TypeCharacter s = typeCharacter e s"
| "runCallback e TypeExitSequence s = typeExitSequence s"
| "runCallback e ExitInitial s = typeExitSequence (s\<lparr>exitLineIndex := 0, exitCharIndex := 0\<rparr>)"
| "runCallback e BsodTimeout s = s\<lparr>showBSOD := True, countdown := 7\<rparr>"
| "runCallback e (CountdownTick c) s = s\<lparr>countdown := c - 1\<rparr>"
| "runCallback e FocusInput s = s"
| "runCallback e TypeTimer s =
     (if headerIndex s < length FULL_TEXT
      then s\<lparr>displayText := take (headerIndex s + 1) FULL_TEXT, headerIndex := headerIndex s + 1\<rparr>
      else clearInterval (typeTimer s) s)"
| "runCallback e CursorTimer s = s\<lparr>showCursor := \<not> showCursor s\<rparr>"
| "runCallback e InputCursorTimer s = s\<lparr>showInputCursor := \<not> showInputCursor s\<rparr>"

text \<open>
  The events of a mounted component: a pending timer fires, the promise of
  \<^verbatim>\<open>fetchIPInfo(1)\<close> settles, a key goes down in the input field, the input field
  changes, the restart button is clicked, the component unmounts. The input field exists
  only while \<^verbatim>\<open>isInteractive && !isExitSequenceActive\<close> and the crash screen is not
  shown (lines 592 and 772); the restart button only on the crash screen once
  \<^verbatim>\<open>showRestartButton\<close> holds (line 651).
\<close>

datatype event =
    Fire nat
  | FetchSettled
  | KeyDown key clock
  | Change string
  | RestartClick
  | Unmount

definition inputRendered :: "state \<Rightarrow> bool" where
  "inputRendered s = (\<not> showBSOD s \<and> isInteractive s \<and> \<not> isExitSequenceActive s)"

fun handle :: "env \<Rightarrow> event \<Rightarrow> state \<Rightarrow> state option" where
  "handle e (Fire h) s =
     (case map_of (timers s) h of
        None \<Rightarrow> None
      | Some (repeats, cb) \<Rightarrow> Some (runCallback e cb (if repeats then s else clearTimeout h s)))"
| "handle e FetchSettled s =
     (if fetchPending s then
        (case fetchIPInfo (nav e) (net e) 1 of
           Inr ipInfo \<Rightarrow> Some (applyIpInfo ipInfo (s\<lparr>fetchPending := False\<rparr>))
         | Inl err \<Rightarrow> Some (s\<lparr>fetchPending := False\<rparr>))
      else None)"
| "handle e (KeyDown k clk) s =
     (if inputRendered s then Some (handleInputSubmit clk k s) else None)"
| "handle e (Change v) s =
     (if inputRendered s then Some (s\<lparr>userInput := Some v\<rparr>) else None)"
| "handle e RestartClick s =
     (if showBSOD s \<and> showRestartButton s then Some (s\<lparr>reloaded := True\<rparr>) else None)"
| "handle e Unmount s = Some (unmount s)"

text \<open>One step: the event's handler, then the effects React runs after the update; the
  result is the state the next event finds. React commits the render of the update before
  it runs the countdown effect, so the render a user sees first is the result of
  \<^term>\<open>handle\<close> alone; it differs from the result of the step in \<^verbatim>\<open>showRestartButton\<close>,
  the countdown timer and its handle only. A component that is unmounted or whose page is
  reloading takes no step.\<close>

definition step :: "env \<Rightarrow> event \<Rightarrow> state \<Rightarrow> state option" where
  "step e ev s =
     (if \<not> mounted s \<or> reloaded s then None
      else map_option (countdownEffect s) (handle e ev s))"

fun run :: "env \<Rightarrow> event list \<Rightarrow> state \<Rightarrow> state option" where
  "run e [] s = Some s"
| "run e (ev # evs) s = (case step e ev s of None \<Rightarrow> None | Some s' \<Rightarrow> run e evs s')"

inductive reachable :: "env \<Rightarrow> state \<Rightarrow> bool" for e :: env where
  reach_mount: "reachable e (mount e)"
| reach_step: "reachable e s \<Longrightarrow> step e ev s = Some s' \<Longrightarrow> reachable e s'"

text \<open>The stage of the terminal: typing, interactive, exit sequence, crash screen,
  reload.\<close>

definition stage :: "state \<Rightarrow> nat" where
  "stage s =
     (if reloaded s then 4
      else if showBSOD s then 3
      else if isExitSequenceActive s then 2
      else if isInteractive s then 1
      else 0)"

section \<open>Predicates of the specification and sample inputs\<close>

text \<open>The failure modes of one attempt: a network error, the timeout abort, a non-OK
  HTTP answer, or an OK answer whose body is not JSON.\<close>

fun failure_mode :: "fetch_outcome \<Rightarrow> bool" where
  "failure_mode NetworkError = True"
| "failure_mode TimeoutAbort = True"
| "failure_mode (Response status body) = (\<not> response_ok status \<or> body = JsonInvalid)"

text \<open>The commands the \<^verbatim>\<open>switch\<close> of \<^verbatim>\<open>processCommand\<close> recognises.\<close>

definition recognizedCommands :: "string list" where
  "recognizedCommands =
     [''help'', ''clear'', ''whoami'', ''access'', ''trace'', ''time'',
      ''flipthebits'', ''flipbits'', ''flip'']"

text \<open>Sample browsers and networks.\<close>

definition nav_plain :: navigator where
  "nav_plain = \<lparr>doNotTrack = None, chromeRuntimeOnConnect = False, navUserAgent = ''Mozilla/5.0''\<rparr>"

definition nav_dnt :: navigator where
  "nav_dnt = \<lparr>doNotTrack = Some ''1'', chromeRuntimeOnConnect = False, navUserAgent = ''Mozilla/5.0''\<rparr>"

definition net_flaky :: "int \<Rightarrow> fetch_outcome" where
  "net_flaky a = (if a = 1 then NetworkError else if a = 2 then TimeoutAbort
                  else Response 503 JsonInvalid)"

definition net_good :: "int \<Rightarrow> fetch_outcome" where
  "net_good a = Response 200 (JsonData \<lparr>ip = ''203.0.113.7'', city = ''Paris'', region = ''IDF'', org = ''ExampleNet''\<rparr>)"

text \<open>A sample environment and clock.\<close>

definition env0 :: env where
  "env0 = \<lparr>nav = nav_plain, platform = ''Linux x86_64'', language = ''en-US'', timezone = ''Europe/Paris'',
     screenWidth = ''1920'', screenHeight = ''1080'', innerWidth = ''1280'', innerHeight = ''720'',
     colorDepth = ''24'', devicePixelRatio = ''1'',
     btoa = (\<lambda>s. ''TW96aWxsYS81LjBMaW51eCB4ODZfNjQxOTIweDEwODA=''), net = net_good\<rparr>"

definition clock0 :: clock where
  "clock0 = \<lparr>timeString = ''11/3/2026, 10:15:00 AM'', timezoneName = ''GMT+1''\<rparr>"

section \<open>Invariants of the reachable states\<close>

text \<open>The callbacks pending in a timer table, and how many of them satisfy a predicate.\<close>

definition tcbs :: "(nat \<times> bool \<times> callback) list \<Rightarrow> callback set" where
  "tcbs ts = (\<lambda>t. snd (snd t)) ` set ts"

definition tcount :: "(callback \<Rightarrow> bool) \<Rightarrow> (nat \<times> bool \<times> callback) list \<Rightarrow> nat" where
  "tcount P ts = length (filter (\<lambda>t. P (snd (snd t))) ts)"

definition isExitChain :: "callback \<Rightarrow> bool" where
  "isExitChain cb = (cb = ExitInitial \<or> cb = TypeExitSequence \<or> cb = BsodTimeout)"

definition isTyping :: "callback \<Rightarrow> bool" where
  "isTyping cb = (cb = TypeCharacter)"

fun isTick :: "callback \<Rightarrow> bool" where
  "isTick (CountdownTick c) = True"
| "isTick cb = False"

definition isIntervalCb :: "callback \<Rightarrow> bool" where
  "isIntervalCb cb = (cb = TypeTimer \<or> cb = CursorTimer \<or> cb = InputCursorTimer)"

definition historyInRange :: "state \<Rightarrow> bool" where
  "historyInRange s =
     (- 1 \<le> historyIndex s \<and> historyIndex s \<le> int (length (commandHistory s)) - 1)"

definition Inv :: "state \<Rightarrow> bool" where
  "Inv s =
     ((\<forall>t \<in> set (timers s). fst (snd t) \<longrightarrow> isIntervalCb (snd (snd t))) \<and>
      0 \<le> countdown s \<and> countdown s \<le> 7 \<and>
      (showRestartButton s \<longleftrightarrow> showBSOD s \<and> countdown s = 0) \<and>
      (\<not> showBSOD s \<longrightarrow> countdown s = 7) \<and>
      (showBSOD s \<longrightarrow> isExitSequenceActive s \<and> length exitSequence \<le> exitLineIndex s) \<and>
      (reloaded s \<longrightarrow> showBSOD s) \<and>
      (isExitSequenceActive s \<longrightarrow> \<not> isInteractive s \<and> terminalLines s \<noteq> []) \<and>
      tcount isExitChain (timers s) \<le> 1 \<and>
      (\<not> isExitSequenceActive s \<longrightarrow> tcount isExitChain (timers s) = 0) \<and>
      (showBSOD s \<longrightarrow> tcount isExitChain (timers s) = 0) \<and>
      (exitLineIndex s < length exitSequence \<longrightarrow> BsodTimeout \<notin> tcbs (timers s)) \<and>
      tcount isTick (timers s) \<le> 1 \<and>
      (\<forall>c. \<not> (showBSOD s \<and> c = countdown s \<and> 0 < c) \<longrightarrow> CountdownTick c \<notin> tcbs (timers s)) \<and>
      tcount isTyping (timers s) \<le> 1 \<and>
      (isInteractive s \<or> isExitSequenceActive s \<longrightarrow>
         tcount isTyping (timers s) = 0 \<and> 14 \<le> lineIndex s) \<and>
      (\<not> isInteractive s \<and> \<not> isExitSequenceActive s \<longrightarrow>
         length (terminalLines s) = lineIndex s + (if charIndex s = 0 then 0 else 1)) \<and>
      historyInRange s \<and> userInput s \<noteq> None)"

text \<open>The terminal after a line has been opened: both typing loops push an empty line
  when they start one.\<close>

definition opened :: "state \<Rightarrow> string list" where
  "opened s = (if charIndex s = 0 then terminalLines s @ [''''] else terminalLines s)"

definition openedExit :: "state \<Rightarrow> string list" where
  "openedExit s = (if exitCharIndex s = 0 then terminalLines s @ [''''] else terminalLines s)"

subsection \<open>What a step can change\<close>

text \<open>The fields that decide the stage, and the countdown.\<close>

definition flags :: "state \<Rightarrow> bool \<times> bool \<times> bool \<times> bool \<times> int" where
  "flags s = (isInteractive s, isExitSequenceActive s, showBSOD s, reloaded s, countdown s)"

text \<open>The scripted lines other than the one that carries the IP information: they do
  not depend on it.\<close>

definition otherLines :: "env \<Rightarrow> string list" where
  "otherLines e = take 2 (scriptLines e '''') @ drop 3 (scriptLines e '''')"

definition unmarked :: "env \<Rightarrow> bool" where
  "unmarked e = (\<forall>l \<in> set (otherLines e). \<not> includesStr l MARKER)"

text \<open>While the typing animation runs, the terminal holds the scripted lines typed so
  far and, inside a line, the part of it typed so far; after the fetch has settled inside
  the line that carries the IP information, that line may stand complete before its
  time.\<close>

definition TInv :: "env \<Rightarrow> state \<Rightarrow> bool" where
  "TInv e s =
     (\<not> isInteractive s \<and> \<not> isExitSequenceActive s \<longrightarrow>
        lineIndex s \<le> 14 \<and>
        (if charIndex s = 0 then terminalLines s = take (lineIndex s) (scriptLines e (ipInfoRef s))
         else lineIndex s < 14 \<and>
           (terminalLines s = take (lineIndex s) (scriptLines e (ipInfoRef s))
                @ [take (charIndex s) (scriptLines e (ipInfoRef s) ! lineIndex s)]
            \<or> (lineIndex s = 2 \<and>
                terminalLines s = take 2 (scriptLines e (ipInfoRef s))
                  @ [scriptLines e (ipInfoRef s) ! 2]))))"

definition tview :: "state \<Rightarrow> bool \<times> bool \<times> nat \<times> nat \<times> string list \<times> string" where
  "tview s = (isInteractive s, isExitSequenceActive s, lineIndex s, charIndex s,
              terminalLines s, ipInfoRef s)"

text \<open>A state in the middle of the typing animation: the closure variables, the
  terminal, and the one pending call of \<^verbatim>\<open>typeCharacter\<close> behind the other timers.\<close>

definition typed ::
  "state \<Rightarrow> (nat \<times> bool \<times> callback) list \<Rightarrow> nat \<Rightarrow> nat \<Rightarrow> string list \<Rightarrow> nat \<Rightarrow> state" where
  "typed s ts li ci ls h =
     s\<lparr>isTypingLine := (0 < ci), terminalLines := ls, lineIndex := li, charIndex := ci,
       timers := ts @ [(h, False, TypeCharacter)], nextTimerId := Suc h\<rparr>"

text \<open>The ticks a script needs from line \<open>k\<close> on: one per character and one per line.\<close>

definition ticksFrom :: "string list \<Rightarrow> nat \<Rightarrow> nat" where
  "ticksFrom ls k = sum_list (map (\<lambda>l. Suc (length l)) (drop k ls))"

text \<open>The three intervals of the main effect, as \<^term>\<open>mount\<close> registers them.\<close>

definition intervalTimers :: "(nat \<times> bool \<times> callback) list" where
  "intervalTimers = [(2, True, TypeTimer), (3, True, CursorTimer), (4, True, InputCursorTimer)]"

text \<open>The run in which nothing but the typing animation happens: the ticks it needs,
  the events, and the state before and after its last call.\<close>

definition typingTicks :: "env \<Rightarrow> nat" where
  "typingTicks e =
     length (scriptLines e FALLBACK ! 1) + ticksFrom (scriptLines e FALLBACK) 2"

definition typingEvents :: "env \<Rightarrow> event list" where
  "typingEvents e = Fire 1 # map Fire [5 ..< 5 + typingTicks e]"

definition typedAll :: "env \<Rightarrow> state" where
  "typedAll e = typed (mount e) intervalTimers 14 0 (scriptLines e FALLBACK) (5 + typingTicks e)"

definition interactiveState :: "env \<Rightarrow> state" where
  "interactiveState e = (typedAll e)\<lparr>isInteractive := True, timers := intervalTimers\<rparr>"

text \<open>A browser whose user agent contains the marker, and the run in which the fetch
  settles between the last character of the script and the last call of
  \<^verbatim>\<open>typeCharacter\<close>.\<close>

definition envMarked :: env where
  "envMarked = env0\<lparr>nav := nav_plain\<lparr>navUserAgent := ''Mozilla/5.0 network_trace:''\<rparr>\<rparr>"

definition lateFetchEvents :: "env \<Rightarrow> event list" where
  "lateFetchEvents e = typingEvents e @ [FetchSettled, Fire (5 + typingTicks e)]"

definition lateFetchState :: "env \<Rightarrow> string \<Rightarrow> state" where
  "lateFetchState e ipInfo =
     (applyIpInfo ipInfo ((typedAll e)\<lparr>fetchPending := False\<rparr>))\<lparr>isInteractive := True, timers := intervalTimers\<rparr>"

definition ipGood :: string where
  "ipGood = ''203.0.113.7 | Paris, IDF | ISP: ExampleNet''"

text \<open>A terminal in use, with two commands in its history.\<close>

definition historyState :: state where
  "historyState = initialState\<lparr>isInteractive := True, commandHistory := [''help'', ''time'']\<rparr>"

text \<open>A terminal that shows the trace line among other lines.\<close>

definition traceShown :: state where
  "traceShown = (mount env0)\<lparr>terminalLines := [''$ ls'', traceLine FALLBACK, '''']\<rparr>"

text \<open>A state in the middle of the exit sequence: the closure variables, the terminal,
  and the one pending call of \<^verbatim>\<open>typeExitSequence\<close> behind the other timers.\<close>

definition exitTyped ::
  "state \<Rightarrow> (nat \<times> bool \<times> callback) list \<Rightarrow> nat \<Rightarrow> nat \<Rightarrow> string list \<Rightarrow> nat \<Rightarrow> state" where
  "exitTyped s ts li ci ls h =
     s\<lparr>terminalLines := ls, exitLineIndex := li, exitCharIndex := ci,
       timers := ts @ [(h, False, TypeExitSequence)], nextTimerId := Suc h\<rparr>"

text \<open>The crash screen with the countdown at \<open>c\<close> and its tick pending.\<close>

definition crashState :: "state \<Rightarrow> (nat \<times> bool \<times> callback) list \<Rightarrow> int \<Rightarrow> nat \<Rightarrow> state" where
  "crashState s ts c h =
     s\<lparr>showBSOD := True, countdown := c, timers := ts @ [(h, False, CountdownTick c)],
       nextTimerId := Suc h, countdownTimer := Some h\<rparr>"

definition restartState :: "state \<Rightarrow> (nat \<times> bool \<times> callback) list \<Rightarrow> nat \<Rightarrow> state" where
  "restartState s ts h =
     s\<lparr>showBSOD := True, countdown := 0, timers := ts, nextTimerId := Suc h,
       countdownTimer := None, showRestartButton := True\<rparr>"

text \<open>The run that goes on from the interactive terminal: the user types \<^verbatim>\<open>flip\<close> and
  presses Enter, the exit sequence is typed, the crash screen counts down, the restart
  button is clicked.\<close>

definition typedIn :: "env \<Rightarrow> state" where
  "typedIn e = (interactiveState e)\<lparr>userInput := Some ''flip''\<rparr>"

definition flipState :: "env \<Rightarrow> clock \<Rightarrow> state" where
  "flipState e clk = handleInputSubmit clk Enter (typedIn e)"

definition exitTimers :: "env \<Rightarrow> (nat \<times> bool \<times> callback) list" where
  "exitTimers e = intervalTimers @ [(7 + typingTicks e, False, FocusInput)]"

definition exitTicks :: nat where
  "exitTicks = length (exitSequence ! 0) + ticksFrom exitSequence 1"

definition exitStart :: "env \<Rightarrow> clock \<Rightarrow> state" where
  "exitStart e clk =
     exitTyped (flipState e clk) (exitTimers e) 0 1
       (terminalLines (flipState e clk) @ [take 1 (exitSequence ! 0)]) (8 + typingTicks e)"

definition exitTypedAll :: "env \<Rightarrow> clock \<Rightarrow> state" where
  "exitTypedAll e clk =
     exitTyped (flipState e clk) (exitTimers e) 30 0
       (terminalLines (flipState e clk) @ exitSequence) (8 + typingTicks e + exitTicks)"

definition bsodPending :: "env \<Rightarrow> clock \<Rightarrow> state" where
  "bsodPending e clk =
     (exitTypedAll e clk)
       \<lparr>timers := exitTimers e @ [(Suc (8 + typingTicks e + exitTicks), False, BsodTimeout)],
        nextTimerId := Suc (Suc (8 + typingTicks e + exitTicks)),
        exitTimeoutsRef := exitTimeoutsRef (flipState e clk) @ [Suc (8 + typingTicks e + exitTicks)]\<rparr>"

definition crashed :: "env \<Rightarrow> clock \<Rightarrow> state" where
  "crashed e clk = crashState (bsodPending e clk) (exitTimers e) 7 (Suc (Suc (8 + typingTicks e + exitTicks)))"

definition restartShown :: "env \<Rightarrow> clock \<Rightarrow> state" where
  "restartShown e clk =
     restartState (bsodPending e clk) (exitTimers e) (Suc (Suc (8 + typingTicks e + exitTicks)) + 6)"

definition exitEvents :: "env \<Rightarrow> clock \<Rightarrow> event list" where
  "exitEvents e clk =
     [Fire (5 + typingTicks e), Change ''flip'', KeyDown Enter clk, Fire (6 + typingTicks e)]
       @ map Fire [8 + typingTicks e ..< 8 + typingTicks e + exitTicks]"

definition countdownEvents :: "env \<Rightarrow> event list" where
  "countdownEvents e =
     map Fire [Suc (Suc (8 + typingTicks e + exitTicks)) ..< Suc (Suc (8 + typingTicks e + exitTicks)) + 6]
       @ [Fire (Suc (Suc (8 + typingTicks e + exitTicks)) + 6)]"

definition reloadedState :: "env \<Rightarrow> clock \<Rightarrow> state" where
  "reloadedState e clk = (restartShown e clk)\<lparr>reloaded := True\<rparr>"

definition firstTick :: "env \<Rightarrow> nat" where
  "firstTick e = Suc (Suc (8 + typingTicks e + exitTicks))"

text \<open>The states a user can see. \<^term>\<open>step\<close> gives the state once React has run the effects
  of an update, and those are the states the next event finds. React commits the render of
  the update first and runs the countdown effect (a passive effect) after it: the committed
  render is what \<^term>\<open>handle\<close> returns. Before the main effect has run, the component shows
  its first render.\<close>

inductive rendered :: "env \<Rightarrow> state \<Rightarrow> bool" for e :: env where
  rendered_first: "rendered e initialState"
| rendered_effects: "reachable e s \<Longrightarrow> rendered e s"
| rendered_commit:
    "reachable e s \<Longrightarrow> mounted s \<Longrightarrow> \<not> reloaded s \<Longrightarrow> handle e ev s = Some s1 \<Longrightarrow> rendered e s1"

text \<open>The crash screen one tick before the end of the countdown, and the render that
  tick commits.\<close>

definition lastTick :: "env \<Rightarrow> nat" where
  "lastTick e = firstTick e + 6"

definition lastCount :: "env \<Rightarrow> clock \<Rightarrow> state" where
  "lastCount e clk = crashState (bsodPending e clk) (exitTimers e) 1 (lastTick e)"

definition lastCommit :: "env \<Rightarrow> clock \<Rightarrow> state" where
  "lastCommit e clk = (lastCount e clk)\<lparr>timers := exitTimers e, countdown := 0\<rparr>"

text \<open>What the typed text depends on.\<close>

definition pview ::
  "state \<Rightarrow> (bool \<times> bool \<times> nat \<times> nat \<times> string list \<times> string) \<times> bool \<times> nat \<times> nat" where
  "pview s = (tview s, fetchPending s, exitLineIndex s, exitCharIndex s)"

text \<open>The line being typed, between two ticks: inside a scripted line the last line of the
  terminal is the part of it typed so far, or, once the fetch has settled and found the
  marker in that part, the rewritten trace line; inside a line of the exit sequence it is
  the part typed so far.\<close>

definition PInv :: "env \<Rightarrow> state \<Rightarrow> bool" where
  "PInv e s =
     ((\<not> isInteractive s \<and> \<not> isExitSequenceActive s \<and> 0 < charIndex s \<longrightarrow>
         lineIndex s < 14 \<and> terminalLines s \<noteq> [] \<and>
         (last (terminalLines s) = take (charIndex s) (scriptLines e (ipInfoRef s) ! lineIndex s) \<or>
          \<not> fetchPending s \<and>
          includesStr (take (charIndex s) (scriptLines e (ipInfoRef s) ! lineIndex s)) MARKER \<and>
          last (terminalLines s) = traceLine (ipInfoRef s))) \<and>
      (0 < exitCharIndex s \<longrightarrow>
         isExitSequenceActive s \<and> exitLineIndex s < 30 \<and> terminalLines s \<noteq> [] \<and>
         last (terminalLines s) = take (exitCharIndex s) (exitSequence ! exitLineIndex s)))"

text \<open>The run in which the fetch settles while the line that carries the IP information
  is being typed: the state with 50 characters of that line typed, the state after the
  fetch has settled there, and the state after the next tick.\<close>

definition traceTick :: nat where
  "traceTick = 5 + length (scriptLines env0 FALLBACK ! 1)"

definition midTrace :: state where
  "midTrace =
     typed (mount env0) intervalTimers 2 50
       (take 2 (scriptLines env0 FALLBACK) @ [take 50 (scriptLines env0 FALLBACK ! 2)]) (traceTick + 50)"

definition midFetched :: state where
  "midFetched = applyIpInfo ipGood (midTrace\<lparr>fetchPending := False\<rparr>)"

definition midNext :: state where
  "midNext =
     typed ((mount env0)\<lparr>fetchPending := False, ipInfoRef := ipGood\<rparr>) intervalTimers 2 51
       (take 2 (scriptLines env0 ipGood) @ [take 51 (scriptLines env0 ipGood ! 2)]) (traceTick + 51)"

section \<open>fetchIPInfo falls back on every failure\<close>

lemma try_block_failure: "failure_mode out \<Longrightarrow> \<exists>err. try_block out = Inl err"
  by (cases out) (auto split: response_body.splits)

lemma fetch_loop_all_fail:
  "(\<And>a. attempt \<le> a \<Longrightarrow> a \<le> retries \<Longrightarrow> failure_mode (nt a)) \<Longrightarrow>
   fetch_loop nt retries attempt = Inr FALLBACK"
proof (induction nt retries attempt rule: fetch_loop.induct)
  case (1 nt retries attempt)
  show ?case
  proof (cases "attempt \<le> retries")
    case False
    then show ?thesis by (simp add: fetch_loop.simps)
  next
    case True
    then obtain err where e: "try_block (nt attempt) = Inl err"
      using "1.prems"[of attempt] try_block_failure by auto
    show ?thesis
    proof (cases "attempt = retries")
      case True
      with e show ?thesis by (subst fetch_loop.simps) simp
    next
      case False
      have "fetch_loop nt retries (attempt + 1) = Inr FALLBACK"
        using "1.IH"[OF True e False] "1.prems" by simp
      with e True False show ?thesis by (subst fetch_loop.simps) simp
    qed
  qed
qed

lemma fetch_loop_returns: "\<exists>s. fetch_loop nt retries attempt = Inr s"
proof (induction nt retries attempt rule: fetch_loop.induct)
  case (1 nt retries attempt)
  then show ?case
    by (subst fetch_loop.simps) (auto split: sum.splits)
qed

lemma fetch_loop_other:
  "fetch_loop nt retries attempt = Inr s \<Longrightarrow> s \<noteq> FALLBACK \<Longrightarrow>
   \<exists>a st d. attempt \<le> a \<and> a \<le> retries \<and> nt a = Response st (JsonData d) \<and>
     response_ok st \<and> s = formatIp d"
proof (induction nt retries attempt rule: fetch_loop.induct)
  case (1 nt retries attempt)
  show ?case
  proof (cases "attempt \<le> retries")
    case False
    with "1.prems" show ?thesis by (simp add: fetch_loop.simps)
  next
    case le: True
    show ?thesis
    proof (cases "try_block (nt attempt)")
      case (Inr t)
      with le "1.prems" have "t = s" by (subst (asm) fetch_loop.simps) simp
      with Inr have "\<exists>st d. nt attempt = Response st (JsonData d) \<and> response_ok st \<and> s = formatIp d"
        by (cases "nt attempt") (auto split: if_splits response_body.splits)
      with le show ?thesis by force
    next
      case (Inl err)
      show ?thesis
      proof (cases "attempt = retries")
        case True
        with Inl le "1.prems" show ?thesis by (subst (asm) fetch_loop.simps) simp
      next
        case False
        with Inl le "1.prems" have "fetch_loop nt retries (attempt + 1) = Inr s"
          by (subst (asm) fetch_loop.simps) simp
        from "1.IH"[OF le Inl False this "1.prems"(2)]
        obtain a st d where w: "attempt + 1 \<le> a" "a \<le> retries"
          "nt a = Response st (JsonData d)" "response_ok st" "s = formatIp d"
          by blast
        from w(1) have "attempt \<le> a" by simp
        with w show ?thesis by blast
      qed
    qed
  qed
qed

text \<open>
  Claim C1. When the heuristic of lines 31-34 fires, or when every attempt from 1 to
  \<^verbatim>\<open>retries\<close> fails (network error, timeout abort, non-OK answer, unreadable body),
  \<^verbatim>\<open>fetchIPInfo\<close> returns the fallback string. It never throws, and a result other
  than the fallback is the formatted data of an attempt that succeeded.
\<close>

theorem fetchIPInfo_fallback:
  "(isLikelyBlocked nv \<longrightarrow> fetchIPInfo nv nt retries = Inr FALLBACK) \<and>
   ((\<forall>a. 1 \<le> a \<and> a \<le> retries \<longrightarrow> failure_mode (nt a)) \<longrightarrow>
      fetchIPInfo nv nt retries = Inr FALLBACK) \<and>
   (\<exists>s. fetchIPInfo nv nt retries = Inr s) \<and>
   (\<forall>s. fetchIPInfo nv nt retries = Inr s \<and> s \<noteq> FALLBACK \<longrightarrow>
      (\<exists>a st d. 1 \<le> a \<and> a \<le> retries \<and> nt a = Response st (JsonData d) \<and>
         response_ok st \<and> s = formatIp d))"
proof (intro conjI impI allI)
  assume "isLikelyBlocked nv"
  then show "fetchIPInfo nv nt retries = Inr FALLBACK" by (simp add: fetchIPInfo_def)
next
  assume "\<forall>a. 1 \<le> a \<and> a \<le> retries \<longrightarrow> failure_mode (nt a)"
  then have "fetch_loop nt retries 1 = Inr FALLBACK"
    by (intro fetch_loop_all_fail) simp
  then show "fetchIPInfo nv nt retries = Inr FALLBACK" by (simp add: fetchIPInfo_def)
next
  show "\<exists>s. fetchIPInfo nv nt retries = Inr s"
    using fetch_loop_returns[of nt retries 1] by (auto simp: fetchIPInfo_def)
next
  fix s assume a: "fetchIPInfo nv nt retries = Inr s \<and> s \<noteq> FALLBACK"
  then have "fetch_loop nt retries 1 = Inr s"
    by (auto simp: fetchIPInfo_def split: if_splits)
  from fetch_loop_other[OF this] a
  show "\<exists>a st d. 1 \<le> a \<and> a \<le> retries \<and> nt a = Response st (JsonData d) \<and>
         response_ok st \<and> s = formatIp d" by simp
qed

theorem fetchIPInfo_fallback_witness:
  "isLikelyBlocked nav_dnt \<and> fetchIPInfo nav_dnt net_good 1 = Inr FALLBACK \<and>
   \<not> isLikelyBlocked nav_plain \<and>
   failure_mode (net_flaky 1) \<and> failure_mode (net_flaky 2) \<and> failure_mode (net_flaky 3) \<and>
   fetchIPInfo nav_plain net_flaky 3 = Inr FALLBACK \<and>
   fetchIPInfo nav_plain net_flaky 1 = Inr FALLBACK \<and>
   fetchIPInfo nav_plain net_good 1 = Inr ''203.0.113.7 | Paris, IDF | ISP: ExampleNet''"
proof -
  have b: "isLikelyBlocked nav_dnt" by (simp add: isLikelyBlocked_def nav_dnt_def)
  have nb: "\<not> isLikelyBlocked nav_plain"
    by (simp add: isLikelyBlocked_def nav_plain_def includesStr_def) code_simp
  have f: "failure_mode (net_flaky 1)" "failure_mode (net_flaky 2)" "failure_mode (net_flaky 3)"
    by (simp_all add: net_flaky_def response_ok_def)
  have all3: "\<forall>a. 1 \<le> a \<and> a \<le> 3 \<longrightarrow> failure_mode (net_flaky a)"
    by (simp add: net_flaky_def response_ok_def)
  have all1: "\<forall>a. 1 \<le> a \<and> a \<le> 1 \<longrightarrow> failure_mode (net_flaky a)"
    by (simp add: net_flaky_def response_ok_def)
  have g: "fetchIPInfo nav_plain net_good 1 = Inr ''203.0.113.7 | Paris, IDF | ISP: ExampleNet''"
    using nb by (simp add: fetchIPInfo_def fetch_loop.simps net_good_def response_ok_def formatIp_def)
  show ?thesis
    using b nb f g all3 all1
      fetchIPInfo_fallback[of nav_dnt net_good 1]
      fetchIPInfo_fallback[of nav_plain net_flaky 3]
      fetchIPInfo_fallback[of nav_plain net_flaky 1]
    by blast
qed

section \<open>processCommand\<close>

lemma codeUnit_char_of: "n < 256 \<Longrightarrow> codeUnit (char_of n) = n"
  by (simp add: codeUnit_def)

lemma isUpper_bound: "isUpper c \<Longrightarrow> codeUnit c + 32 < 256"
  by (auto simp: isUpper_def)

lemma lowerChar_not_upper: "\<not> isUpper (lowerChar c)"
proof (cases "isUpper c")
  case True
  then have "codeUnit (lowerChar c) = codeUnit c + 32"
    by (simp add: lowerChar_def codeUnit_char_of isUpper_bound)
  with True show ?thesis by (auto simp: isUpper_def)
next
  case False
  then show ?thesis by (simp add: lowerChar_def)
qed

lemma lowerChar_idem: "lowerChar (lowerChar c) = lowerChar c"
  using lowerChar_not_upper[of c] by (simp add: lowerChar_def[of "lowerChar c"])

lemma isWhiteSpace_lowerChar: "isWhiteSpace (lowerChar c) = isWhiteSpace c"
proof (cases "isUpper c")
  case True
  then have "codeUnit (lowerChar c) = codeUnit c + 32"
    by (simp add: lowerChar_def codeUnit_char_of isUpper_bound)
  with True show ?thesis by (auto simp: isUpper_def isWhiteSpace_def)
next
  case False
  then show ?thesis by (simp add: lowerChar_def)
qed

lemma toLowerCase_idem: "toLowerCase (toLowerCase s) = toLowerCase s"
  by (simp add: toLowerCase_def lowerChar_idem)

lemma dropWhile_ws_lower:
  "dropWhile isWhiteSpace (map lowerChar s) = map lowerChar (dropWhile isWhiteSpace s)"
  by (induction s) (simp_all add: isWhiteSpace_lowerChar)

lemma trim_toLowerCase: "trim (toLowerCase s) = toLowerCase (trim s)"
  by (simp add: trim_def toLowerCase_def dropWhile_ws_lower rev_map)

lemma dropWhile_keeps: "xs \<noteq> [] \<Longrightarrow> \<not> P (hd xs) \<Longrightarrow> dropWhile P xs = xs"
  by (cases xs) simp_all

lemma dropWhile_rev_dropWhile:
  "dropWhile P (rev (dropWhile P (rev (dropWhile P s)))) = rev (dropWhile P (rev (dropWhile P s)))"
proof (cases "dropWhile P (rev (dropWhile P s))")
  case Nil
  then show ?thesis by (simp only: rev.simps dropWhile.simps)
next
  case (Cons x xs)
  let ?t = "dropWhile P s"
  have ne: "?t \<noteq> []"
    using Cons by (metis dropWhile.simps(1) list.distinct(1) rev.simps(1))
  then have hd: "\<not> P (hd ?t)" by (rule hd_dropWhile)
  have "\<exists>ys. ?t = rev (dropWhile P (rev ?t)) @ ys"
    by (metis rev_append rev_rev_ident takeWhile_dropWhile_id)
  then obtain ys where ys: "?t = rev (dropWhile P (rev ?t)) @ ys" ..
  have ne': "rev (dropWhile P (rev ?t)) \<noteq> []"
    using Cons by (metis list.distinct(1) rev_is_Nil_conv)
  with ys have "hd (rev (dropWhile P (rev ?t))) = hd ?t" by (metis hd_append2)
  with hd have "\<not> P (hd (rev (dropWhile P (rev ?t))))" by simp
  with ne' show ?thesis by (rule dropWhile_keeps)
qed

lemma trim_idem: "trim (trim s) = trim s"
  by (simp add: trim_def dropWhile_rev_dropWhile)

lemma normalise_idem:
  "trim (toLowerCase (trim (toLowerCase c))) = trim (toLowerCase c)"
  by (simp add: trim_toLowerCase toLowerCase_idem trim_idem)

lemma commandBranch_Default:
  "cmd \<notin> set recognizedCommands \<Longrightarrow> commandBranch cmd = Default"
  by (simp add: recognizedCommands_def commandBranch_def)

lemma norm_about: "trim (toLowerCase ''about'') = ''about''"
  by code_simp

lemma norm_scan: "trim (toLowerCase ''scan'') = ''scan''"
  by code_simp

text \<open>
  Claim C8. A command whose lowercased, trimmed form is none of the recognised commands is
  answered by the one-element list \<^verbatim>\<open>["[ACCESS DENIED]"]\<close>, and nothing but the
  clearing of the terminal happens to the state; so are \<^verbatim>\<open>about\<close> and \<^verbatim>\<open>scan\<close>.
\<close>

theorem processCommand_default:
  "(trim (toLowerCase c) \<notin> set recognizedCommands \<longrightarrow>
      processCommand clk c s = ([''[ACCESS DENIED]''], s\<lparr>terminalLines := []\<rparr>)) \<and>
   processCommand clk ''about'' s = ([''[ACCESS DENIED]''], s\<lparr>terminalLines := []\<rparr>) \<and>
   processCommand clk ''scan'' s = ([''[ACCESS DENIED]''], s\<lparr>terminalLines := []\<rparr>)"
proof (intro conjI impI)
  assume "trim (toLowerCase c) \<notin> set recognizedCommands"
  then show "processCommand clk c s = ([''[ACCESS DENIED]''], s\<lparr>terminalLines := []\<rparr>)"
    by (simp add: processCommand_def commandBranch_Default)
next
  show "processCommand clk ''about'' s = ([''[ACCESS DENIED]''], s\<lparr>terminalLines := []\<rparr>)"
    by (simp add: processCommand_def norm_about commandBranch_def)
next
  show "processCommand clk ''scan'' s = ([''[ACCESS DENIED]''], s\<lparr>terminalLines := []\<rparr>)"
    by (simp add: processCommand_def norm_scan commandBranch_def)
qed

lemma norm_sample: "trim (toLowerCase ''  Sudo RM -rf  '') = ''sudo rm -rf''"
  by code_simp

theorem processCommand_default_witness:
  "trim (toLowerCase ''  Sudo RM -rf  '') \<notin> set recognizedCommands \<and>
   fst (processCommand clock0 ''  Sudo RM -rf  '' initialState) = [''[ACCESS DENIED]'']"
proof -
  have h: "trim (toLowerCase ''  Sudo RM -rf  '') \<notin> set recognizedCommands"
    by (simp add: norm_sample recognizedCommands_def)
  with processCommand_default[of "''  Sudo RM -rf  ''" clock0 initialState]
  show ?thesis by simp
qed

text \<open>
  Claim C9. \<^verbatim>\<open>processCommand\<close> does not depend on the letter case and the surrounding
  white space of its argument: \<^verbatim>\<open>c\<close> and \<^verbatim>\<open>c.toLowerCase().trim()\<close> select the same
  branch and give the same answer and the same state.
\<close>

theorem processCommand_case_space_invariant:
  "commandBranch (trim (toLowerCase (trim (toLowerCase c)))) = commandBranch (trim (toLowerCase c)) \<and>
   processCommand clk (trim (toLowerCase c)) s = processCommand clk c s"
  by (simp add: processCommand_def normalise_idem)

lemma norm_help: "trim (toLowerCase '' HeLP  '') = ''help''"
  by code_simp

theorem processCommand_case_space_sample:
  "processCommand clock0 '' HeLP  '' initialState = processCommand clock0 ''help'' initialState \<and>
   fst (processCommand clock0 '' HeLP  '' initialState) = helpLines"
  using processCommand_case_space_invariant[of "'' HeLP  ''" clock0 initialState]
  by (simp add: norm_help processCommand_def commandBranch_def)

lemma length_scriptLines [simp]: "length (scriptLines e ipInfo) = 14"
  by (simp add: scriptLines_def)

lemma tcount_Nil [simp]: "tcount P [] = 0"
  by (simp add: tcount_def)

lemma tcount_snoc [simp]: "tcount P (ts @ [(h, r, cb)]) = tcount P ts + (if P cb then 1 else 0)"
  by (simp add: tcount_def)

lemma tcount_Cons [simp]: "tcount P ((h, r, cb) # ts) = (if P cb then 1 else 0) + tcount P ts"
  by (simp add: tcount_def)

lemma tcbs_Cons [simp]: "tcbs ((h, r, cb) # ts) = insert cb (tcbs ts)"
  by (auto simp: tcbs_def)

lemma tcount_filter_le: "tcount P (filter Q ts) \<le> tcount P ts"
  unfolding tcount_def by (induction ts) auto

lemma tcount_filter_le1 [simp]: "tcount P ts \<le> n \<Longrightarrow> tcount P (filter Q ts) \<le> n"
  using tcount_filter_le[of P Q ts] by simp

lemma tcount_filter_0 [simp]: "tcount P ts = 0 \<Longrightarrow> tcount P (filter Q ts) = 0"
  using tcount_filter_le[of P Q ts] by simp

lemma tcbs_Nil [simp]: "tcbs [] = {}"
  by (simp add: tcbs_def)

lemma tcbs_snoc [simp]: "tcbs (ts @ [(h, r, cb)]) = insert cb (tcbs ts)"
  by (auto simp: tcbs_def)

lemma tcbs_filter: "cb \<in> tcbs (filter Q ts) \<Longrightarrow> cb \<in> tcbs ts"
  by (auto simp: tcbs_def)

lemma tcount_0_iff: "tcount P ts = 0 \<longleftrightarrow> (\<forall>cb \<in> tcbs ts. \<not> P cb)"
  by (auto simp: tcount_def tcbs_def filter_empty_conv)

lemma map_of_mem: "map_of ts h = Some v \<Longrightarrow> (h, v) \<in> set ts"
  by (rule map_of_SomeD)

lemma tcount_fired:
  "map_of ts h = Some (r, cb) \<Longrightarrow> P cb \<Longrightarrow> tcount P ts \<le> 1 \<Longrightarrow>
   tcount P (filter (\<lambda>t. fst t \<noteq> h) ts) = 0"
proof (induction ts)
  case Nil
  then show ?case by simp
next
  case (Cons t ts)
  show ?case
  proof (cases "fst t = h")
    case True
    with Cons.prems have "t = (h, r, cb)" by (cases t) auto
    with Cons.prems have "tcount P ts = 0" by (simp add: tcount_def)
    with True show ?thesis using tcount_filter_0[of P ts] by (simp add: tcount_def)
  next
    case False
    with Cons.prems have m: "map_of ts h = Some (r, cb)" by (cases t) auto
    from Cons.prems have "tcount P ts \<le> 1" by (simp add: tcount_def split: if_splits)
    from Cons.IH[OF m Cons.prems(2) this] have z: "tcount P (filter (\<lambda>t. fst t \<noteq> h) ts) = 0" .
    from m Cons.prems(2) have "tcount P ts \<ge> 1"
      by (metis One_nat_def Suc_leI map_of_SomeD bot_nat_0.not_eq_extremum tcount_0_iff tcbs_def image_eqI snd_conv)
    with Cons.prems(3) have "\<not> P (snd (snd t))" by (auto simp: tcount_def split: if_splits)
    with z False show ?thesis by (simp add: tcount_def)
  qed
qed

lemma fold_clearTimeout:
  "fold clearTimeout hs s = s\<lparr>timers := filter (\<lambda>t. fst t \<notin> set hs) (timers s)\<rparr>"
proof (induction hs arbitrary: s)
  case Nil
  then show ?case by simp
next
  case (Cons h hs)
  have "filter (\<lambda>t. fst t \<notin> set hs) (filter (\<lambda>t. fst t \<noteq> h) (timers s)) =
        filter (\<lambda>t. fst t \<notin> set (h # hs)) (timers s)"
    by (induction "timers s") auto
  with Cons show ?case by (simp add: clearTimeout_def)
qed

lemma clearExitTimeouts_eq:
  "clearExitTimeouts s =
     s\<lparr>timers := filter (\<lambda>t. fst t \<notin> set (exitTimeoutsRef s)) (timers s), exitTimeoutsRef := []\<rparr>"
  by (simp add: clearExitTimeouts_def fold_clearTimeout)

lemma countdownEffect_same:
  "showBSOD s' = showBSOD s \<Longrightarrow> countdown s' = countdown s \<Longrightarrow> countdownEffect s s' = s'"
  by (simp add: countdownEffect_def)

lemma Inv_mount: "Inv (mount e)"
  by (simp add: Inv_def mount_def typeCharacter_def initialState_def setTimeout_def setInterval_def
      Let_def scriptLines_def isExitChain_def isTyping_def isIntervalCb_def historyInRange_def)

lemma tcount_pending: "map_of ts h = Some (r, cb) \<Longrightarrow> P cb \<Longrightarrow> tcount P ts \<noteq> 0"
proof -
  assume m: "map_of ts h = Some (r, cb)" and p: "P cb"
  from m have "(h, r, cb) \<in> set ts" by (rule map_of_SomeD)
  then have "cb \<in> tcbs ts" by (force simp: tcbs_def)
  with p show ?thesis by (auto simp: tcount_0_iff)
qed

lemma tcbs_pending: "map_of ts h = Some (r, cb) \<Longrightarrow> cb \<in> tcbs ts"
proof -
  assume "map_of ts h = Some (r, cb)"
  then have "(h, r, cb) \<in> set ts" by (rule map_of_SomeD)
  then show ?thesis by (force simp: tcbs_def)
qed

lemma tcbs_filter_not [simp]: "cb \<notin> tcbs ts \<Longrightarrow> cb \<notin> tcbs (filter Q ts)"
  by (auto dest: tcbs_filter)

lemma length_setLast [simp]: "length (setLast xs v) = length xs"
  by (simp add: setLast_def)

lemma setLast_eq_Nil [simp]: "setLast xs v = [] \<longleftrightarrow> xs = []"
  by (simp add: setLast_def)

lemma length_opened:
  "length (opened s) = length (terminalLines s) + (if charIndex s = 0 then 1 else 0)"
  by (simp add: opened_def)

lemma openedExit_Nil [simp]: "openedExit s = [] \<longleftrightarrow> terminalLines s = [] \<and> exitCharIndex s \<noteq> 0"
  by (simp add: openedExit_def)

lemma length_exitSequence [simp]: "length exitSequence = 30"
  by (simp add: exitSequence_def)

lemma one_shot:
  assumes "Inv s" and "map_of (timers s) h = Some (r, cb)" and "\<not> isIntervalCb cb"
  shows "\<not> r"
proof
  assume r
  from assms(2) have "(h, r, cb) \<in> set (timers s)" by (rule map_of_SomeD)
  moreover from assms(1) have "\<forall>t \<in> set (timers s). fst (snd t) \<longrightarrow> isIntervalCb (snd (snd t))"
    by (simp add: Inv_def)
  ultimately have "isIntervalCb cb" using \<open>r\<close> by force
  with assms(3) show False by simp
qed

subsection \<open>What each callback does, case by case\<close>

lemma typeCharacter_done:
  "14 \<le> lineIndex s \<Longrightarrow> typeCharacter e s = s\<lparr>isInteractive := True\<rparr>"
  by (simp add: typeCharacter_def)

lemma typeCharacter_char:
  "lineIndex s < 14 \<Longrightarrow> charIndex s < length (scriptLines e (ipInfoRef s) ! lineIndex s) \<Longrightarrow>
   typeCharacter e s =
     s\<lparr>isTypingLine := (charIndex s = 0 \<or> isTypingLine s),
       terminalLines := setLast (opened s) (take (Suc (charIndex s)) (scriptLines e (ipInfoRef s) ! lineIndex s)),
       charIndex := Suc (charIndex s),
       timers := timers s @ [(nextTimerId s, False, TypeCharacter)],
       nextTimerId := Suc (nextTimerId s)\<rparr>"
  by (cases "charIndex s = 0") (simp_all add: typeCharacter_def setTimeout_def opened_def)

lemma typeCharacter_line:
  "lineIndex s < 14 \<Longrightarrow> \<not> charIndex s < length (scriptLines e (ipInfoRef s) ! lineIndex s) \<Longrightarrow>
   typeCharacter e s =
     s\<lparr>isTypingLine := False, terminalLines := opened s, charIndex := 0,
       lineIndex := Suc (lineIndex s),
       timers := timers s @ [(nextTimerId s, False, TypeCharacter)],
       nextTimerId := Suc (nextTimerId s)\<rparr>"
  by (cases "charIndex s = 0") (simp_all add: typeCharacter_def setTimeout_def opened_def)

lemma typeCharacter_keeps:
  "showBSOD (typeCharacter e s) = showBSOD s \<and> countdown (typeCharacter e s) = countdown s"
  by (simp add: typeCharacter_def setTimeout_def Let_def)

lemma typeExitSequence_done:
  "30 \<le> exitLineIndex s \<Longrightarrow>
   typeExitSequence s =
     s\<lparr>timers := timers s @ [(nextTimerId s, False, BsodTimeout)],
       nextTimerId := Suc (nextTimerId s),
       exitTimeoutsRef := exitTimeoutsRef s @ [nextTimerId s]\<rparr>"
  by (simp add: typeExitSequence_def setTimeout_def)

lemma typeExitSequence_empty:
  "exitLineIndex s < 30 \<Longrightarrow> exitSequence ! exitLineIndex s = '''' \<Longrightarrow>
   typeExitSequence s =
     s\<lparr>terminalLines := terminalLines s @ [''''],
       exitLineIndex := Suc (exitLineIndex s), exitCharIndex := 0,
       timers := timers s @ [(nextTimerId s, False, TypeExitSequence)],
       nextTimerId := Suc (nextTimerId s)\<rparr>"
  by (simp add: typeExitSequence_def setTimeout_def)

lemma typeExitSequence_char:
  "exitLineIndex s < 30 \<Longrightarrow> exitSequence ! exitLineIndex s \<noteq> '''' \<Longrightarrow>
   exitCharIndex s < length (exitSequence ! exitLineIndex s) \<Longrightarrow>
   typeExitSequence s =
     s\<lparr>terminalLines := setLast (openedExit s) (take (Suc (exitCharIndex s)) (exitSequence ! exitLineIndex s)),
       exitCharIndex := Suc (exitCharIndex s),
       timers := timers s @ [(nextTimerId s, False, TypeExitSequence)],
       nextTimerId := Suc (nextTimerId s)\<rparr>"
  by (cases "exitCharIndex s = 0") (simp_all add: typeExitSequence_def setTimeout_def openedExit_def)

lemma typeExitSequence_line:
  "exitLineIndex s < 30 \<Longrightarrow> exitSequence ! exitLineIndex s \<noteq> '''' \<Longrightarrow>
   \<not> exitCharIndex s < length (exitSequence ! exitLineIndex s) \<Longrightarrow>
   typeExitSequence s =
     s\<lparr>exitCharIndex := 0, exitLineIndex := Suc (exitLineIndex s),
       timers := timers s @ [(nextTimerId s, False, TypeExitSequence)],
       nextTimerId := Suc (nextTimerId s)\<rparr>"
  by (cases "exitCharIndex s = 0") (simp_all add: typeExitSequence_def setTimeout_def)

lemma typeExitSequence_keeps:
  "showBSOD (typeExitSequence s) = showBSOD s \<and> countdown (typeExitSequence s) = countdown s"
  by (simp add: typeExitSequence_def setTimeout_def Let_def)

lemma executeExit_eq:
  "executeExit s =
     s\<lparr>timers := filter (\<lambda>t. fst t \<notin> set (exitTimeoutsRef s)) (timers s)
                   @ [(nextTimerId s, False, ExitInitial)],
       nextTimerId := Suc (nextTimerId s),
       exitTimeoutsRef := [nextTimerId s],
       isExitSequenceActive := True, isInteractive := False,
       exitTriggered := exitTriggered s @ [True], terminalLines := []\<rparr>"
  by (simp add: executeExit_def clearExitTimeouts_eq setTimeout_def Let_def)

subsection \<open>Every step keeps the invariant\<close>

lemma Inv_typeCharacter:
  assumes "Inv s" and m: "map_of (timers s) h = Some (False, TypeCharacter)"
  shows "Inv (typeCharacter e (clearTimeout h s))"
proof -
  let ?s = "clearTimeout h s"
  have z: "tcount isTyping (filter (\<lambda>t. fst t \<noteq> h) (timers s)) = 0"
    using assms by (intro tcount_fired[OF m]) (simp_all add: isTyping_def Inv_def)
  have nz: "tcount isTyping (timers s) \<noteq> 0"
    using m by (rule tcount_pending) (simp add: isTyping_def)
  with assms(1) have st: "\<not> isInteractive s" "\<not> isExitSequenceActive s" "\<not> showBSOD s"
    by (simp_all add: Inv_def) blast+
  consider (fin) "14 \<le> lineIndex ?s"
    | (chr) "lineIndex ?s < 14" "charIndex ?s < length (scriptLines e (ipInfoRef ?s) ! lineIndex ?s)"
    | (lin) "lineIndex ?s < 14" "\<not> charIndex ?s < length (scriptLines e (ipInfoRef ?s) ! lineIndex ?s)"
    by linarith
  then show ?thesis
  proof cases
    case fin
    then show ?thesis
      using assms(1) z st
      by (simp add: typeCharacter_done)
         (auto simp: Inv_def clearTimeout_def historyInRange_def dest: tcbs_filter)
  next
    case chr
    then show ?thesis
      using assms(1) z st
      by (simp add: typeCharacter_char)
         (auto simp: Inv_def clearTimeout_def historyInRange_def length_opened
            isExitChain_def isTyping_def isIntervalCb_def dest: tcbs_filter)
  next
    case lin
    then show ?thesis
      using assms(1) z st
      by (simp add: typeCharacter_line)
         (auto simp: Inv_def clearTimeout_def historyInRange_def length_opened
            isExitChain_def isTyping_def isIntervalCb_def dest: tcbs_filter)
  qed
qed

lemma Inv_tickD:
  assumes "Inv s" and "CountdownTick c \<in> tcbs (timers s)"
  shows "showBSOD s \<and> c = countdown s \<and> 0 < c"
proof -
  from assms(1)
  have "\<forall>c. \<not> (showBSOD s \<and> c = countdown s \<and> 0 < c) \<longrightarrow> CountdownTick c \<notin> tcbs (timers s)"
    unfolding Inv_def by (elim conjE)
  with assms(2) show ?thesis by blast
qed

lemma Inv_bsodD:
  assumes "Inv s" and "BsodTimeout \<in> tcbs (timers s)"
  shows "30 \<le> exitLineIndex s"
proof -
  from assms(1)
  have "exitLineIndex s < length exitSequence \<longrightarrow> BsodTimeout \<notin> tcbs (timers s)"
    unfolding Inv_def by (elim conjE)
  with assms(2) show ?thesis by (simp add: not_less[symmetric])
qed

lemma exit_pending:
  assumes "Inv s" and m: "map_of (timers s) h = Some (False, cb)" and c: "isExitChain cb"
  shows "tcount isExitChain (filter (\<lambda>t. fst t \<noteq> h) (timers s)) = 0"
    and "isExitSequenceActive s" and "\<not> showBSOD s" and "\<not> isInteractive s"
    and "terminalLines s \<noteq> []"
proof -
  show "tcount isExitChain (filter (\<lambda>t. fst t \<noteq> h) (timers s)) = 0"
    using assms by (intro tcount_fired[OF m]) (simp_all add: Inv_def)
  have nz: "tcount isExitChain (timers s) \<noteq> 0"
    using m c by (rule tcount_pending)
  with assms(1) show a: "isExitSequenceActive s" and "\<not> showBSOD s"
    by (auto simp: Inv_def)
  with assms(1) show "\<not> isInteractive s" and "terminalLines s \<noteq> []"
    by (simp_all add: Inv_def)
qed

lemma Inv_typeExitSequence_aux:
  assumes "Inv s"
    and z: "tcount isExitChain (filter (\<lambda>t. fst t \<noteq> h) (timers s)) = 0"
    and st: "isExitSequenceActive s" "\<not> showBSOD s" "\<not> isInteractive s" "terminalLines s \<noteq> []"
    and s': "s' = (clearTimeout h s)\<lparr>exitLineIndex := li, exitCharIndex := ci\<rparr>"
  shows "Inv (typeExitSequence s')"
proof -
  have nb: "BsodTimeout \<notin> tcbs (timers s')"
    using z by (simp add: s' clearTimeout_def tcount_0_iff isExitChain_def) blast
  consider (fin) "30 \<le> exitLineIndex s'"
    | (emp) "exitLineIndex s' < 30" "exitSequence ! exitLineIndex s' = ''''"
    | (chr) "exitLineIndex s' < 30" "exitSequence ! exitLineIndex s' \<noteq> ''''"
        "exitCharIndex s' < length (exitSequence ! exitLineIndex s')"
    | (lin) "exitLineIndex s' < 30" "exitSequence ! exitLineIndex s' \<noteq> ''''"
        "\<not> exitCharIndex s' < length (exitSequence ! exitLineIndex s')"
    by linarith
  then show ?thesis
  proof cases
    case fin
    then show ?thesis
      using assms(1) z st nb
      by (simp add: typeExitSequence_done)
         (auto simp: s' Inv_def clearTimeout_def historyInRange_def
            isExitChain_def isTyping_def isIntervalCb_def dest: tcbs_filter)
  next
    case emp
    then show ?thesis
      using assms(1) z st nb
      by (simp add: typeExitSequence_empty)
         (auto simp: s' Inv_def clearTimeout_def historyInRange_def
            isExitChain_def isTyping_def isIntervalCb_def dest: tcbs_filter)
  next
    case chr
    then show ?thesis
      using assms(1) z st nb
      by (simp add: typeExitSequence_char)
         (auto simp: s' Inv_def clearTimeout_def historyInRange_def
            isExitChain_def isTyping_def isIntervalCb_def dest: tcbs_filter)
  next
    case lin
    then show ?thesis
      using assms(1) z st nb
      by (simp add: typeExitSequence_line)
         (auto simp: s' Inv_def clearTimeout_def historyInRange_def
            isExitChain_def isTyping_def isIntervalCb_def dest: tcbs_filter)
  qed
qed

lemma Inv_typeExitSequence:
  assumes "Inv s" and m: "map_of (timers s) h = Some (False, TypeExitSequence)"
  shows "Inv (typeExitSequence (clearTimeout h s))"
proof -
  have c: "isExitChain TypeExitSequence" by (simp add: isExitChain_def)
  have "clearTimeout h s = (clearTimeout h s)\<lparr>exitLineIndex := exitLineIndex s, exitCharIndex := exitCharIndex s\<rparr>"
    by (simp add: clearTimeout_def)
  from Inv_typeExitSequence_aux[OF assms(1) exit_pending[OF assms c] this]
  show ?thesis by (simp add: clearTimeout_def)
qed

lemma Inv_exitInitial:
  assumes "Inv s" and m: "map_of (timers s) h = Some (False, ExitInitial)"
  shows "Inv (typeExitSequence ((clearTimeout h s)\<lparr>exitLineIndex := 0, exitCharIndex := 0\<rparr>))"
proof -
  have c: "isExitChain ExitInitial" by (simp add: isExitChain_def)
  from Inv_typeExitSequence_aux[OF assms(1) exit_pending[OF assms c] refl]
  show ?thesis .
qed

lemma no_ticks:
  assumes "Inv s" and "\<not> showBSOD s"
  shows "tcount isTick (timers s) = 0"
proof -
  from assms have "\<forall>c. CountdownTick c \<notin> tcbs (timers s)" by (auto simp: Inv_def)
  then have "\<forall>cb \<in> tcbs (timers s). \<not> isTick cb"
    by (metis isTick.elims(2))
  then show ?thesis by (simp add: tcount_0_iff)
qed

lemma no_ticks_D: "tcount isTick ts = 0 \<Longrightarrow> CountdownTick c \<notin> tcbs ts"
  by (auto simp: tcount_0_iff)

lemma countdownEffect_start:
  "showBSOD s' \<Longrightarrow> 0 < countdown s' \<Longrightarrow> showBSOD s \<noteq> showBSOD s' \<or> countdown s \<noteq> countdown s' \<Longrightarrow>
   countdownEffect s s' =
     s'\<lparr>timers := filter (\<lambda>t. Some (fst t) \<noteq> countdownTimer s') (timers s')
                    @ [(nextTimerId s', False, CountdownTick (countdown s'))],
        nextTimerId := Suc (nextTimerId s'),
        countdownTimer := Some (nextTimerId s')\<rparr>"
  by (cases "countdownTimer s'") (auto simp: countdownEffect_def setTimeout_def clearTimeout_def)

lemma countdownEffect_zero:
  "showBSOD s' \<Longrightarrow> countdown s' = 0 \<Longrightarrow> showBSOD s \<noteq> showBSOD s' \<or> countdown s \<noteq> countdown s' \<Longrightarrow>
   countdownEffect s s' =
     s'\<lparr>timers := filter (\<lambda>t. Some (fst t) \<noteq> countdownTimer s') (timers s'),
        countdownTimer := None, showRestartButton := True\<rparr>"
  by (cases "countdownTimer s'") (auto simp: countdownEffect_def setTimeout_def clearTimeout_def)

lemma Inv_bsod:
  assumes "Inv s" and m: "map_of (timers s) h = Some (False, BsodTimeout)"
  shows "Inv (countdownEffect s ((clearTimeout h s)\<lparr>showBSOD := True, countdown := 7\<rparr>))"
proof -
  have c: "isExitChain BsodTimeout" by (simp add: isExitChain_def)
  note p = exit_pending[OF assms c]
  have t0: "tcount isTick (timers s) = 0" using assms(1) p(3) by (rule no_ticks)
  have len: "30 \<le> exitLineIndex s"
    using assms(1) tcbs_pending[OF m] by (rule Inv_bsodD)
  have nt: "\<And>Q Q' c. CountdownTick c \<notin> tcbs (filter Q (filter Q' (timers s)))"
    using t0 by (intro tcbs_filter_not no_ticks_D)
  show ?thesis
    using assms(1) p t0 len nt
    by (subst countdownEffect_start)
       (auto simp del: filter_filter simp: clearTimeout_def Inv_def
          historyInRange_def isExitChain_def isTyping_def isIntervalCb_def dest: tcbs_filter)
qed

lemma Inv_tick:
  assumes "Inv s" and m: "map_of (timers s) h = Some (False, CountdownTick c)"
  shows "Inv (countdownEffect s ((clearTimeout h s)\<lparr>countdown := c - 1\<rparr>))"
proof -
  have z: "tcount isTick (filter (\<lambda>t. fst t \<noteq> h) (timers s)) = 0"
    using assms by (intro tcount_fired[OF m]) (simp_all add: Inv_def)
  have pre: "showBSOD s" "c = countdown s" "0 < c"
    using Inv_tickD[OF assms(1) tcbs_pending[OF m]] by simp_all
  have nt: "\<And>Q c. CountdownTick c \<notin> tcbs (filter Q (filter (\<lambda>t. fst t \<noteq> h) (timers s)))"
    using z by (intro tcbs_filter_not no_ticks_D)
  show ?thesis
  proof (cases "c = 1")
    case True
    then show ?thesis
      using assms(1) z pre nt
      by (subst countdownEffect_zero)
         (simp_all del: filter_filter add: clearTimeout_def Inv_def historyInRange_def)
  next
    case False
    then show ?thesis
      using assms(1) z pre nt
      by (subst countdownEffect_start)
         (simp_all del: filter_filter add: clearTimeout_def Inv_def historyInRange_def
            isExitChain_def isTyping_def isIntervalCb_def)
  qed
qed

lemma Inv_shrink: "Inv s \<Longrightarrow> Inv (s\<lparr>timers := filter Q (timers s)\<rparr>)"
  by (simp add: Inv_def historyInRange_def)

lemma Inv_clearTimeout: "Inv s \<Longrightarrow> Inv (clearTimeout h s)"
  by (simp add: clearTimeout_def Inv_shrink)

lemma Inv_irrelevant:
  "Inv (s\<lparr>displayText := a\<rparr>) = Inv s"
  "Inv (s\<lparr>headerIndex := n\<rparr>) = Inv s"
  "Inv (s\<lparr>showCursor := b\<rparr>) = Inv s"
  "Inv (s\<lparr>showInputCursor := b\<rparr>) = Inv s"
  "Inv (s\<lparr>fetchPending := b\<rparr>) = Inv s"
  "Inv (s\<lparr>mounted := b\<rparr>) = Inv s"
  "Inv (s\<lparr>countdownTimer := t\<rparr>) = Inv s"
  "Inv (s\<lparr>exitTimeoutsRef := hs\<rparr>) = Inv s"
  "Inv (s\<lparr>ipInfoRef := i\<rparr>) = Inv s"
  by (simp_all add: Inv_def historyInRange_def)

lemma Inv_interval:
  assumes "Inv s" and "isIntervalCb cb"
  shows "Inv (runCallback e cb s)"
  using assms
  by (cases cb) (simp_all add: isIntervalCb_def Inv_irrelevant clearInterval_def Inv_clearTimeout)

lemma interval_keeps:
  assumes "isIntervalCb cb"
  shows "showBSOD (runCallback e cb s) = showBSOD s \<and> countdown (runCallback e cb s) = countdown s"
  using assms
  by (cases cb) (simp_all add: isIntervalCb_def clearInterval_def clearTimeout_def)

lemma Inv_applyIpInfo: "Inv s \<Longrightarrow> Inv (applyIpInfo ipInfo s)"
  by (simp add: applyIpInfo_def Inv_def historyInRange_def)

lemma unmount_eq:
  "unmount s =
     s\<lparr>timers := filter (\<lambda>t. fst t \<noteq> typeTimer s \<and> fst t \<noteq> cursorTimer s \<and>
                              fst t \<noteq> inputCursorTimer s \<and> fst t \<notin> set (exitTimeoutsRef s) \<and>
                              Some (fst t) \<noteq> countdownTimer s) (timers s),
       exitTimeoutsRef := [], countdownTimer := None, mounted := False\<rparr>"
  by (cases "countdownTimer s")
     (simp_all add: unmount_def Let_def clearExitTimeouts_eq clearInterval_def clearTimeout_def
        conj_ac cong: filter_cong)

lemma Inv_unmount: "Inv s \<Longrightarrow> Inv (unmount s)"
  by (simp only: unmount_eq Inv_irrelevant Inv_shrink)

lemma Inv_change: "Inv s \<Longrightarrow> Inv (s\<lparr>userInput := Some v\<rparr>)"
  by (simp add: Inv_def historyInRange_def)

lemma Inv_reload: "Inv s \<Longrightarrow> showBSOD s \<Longrightarrow> Inv (s\<lparr>reloaded := True\<rparr>)"
  by (simp add: Inv_def historyInRange_def)

lemma tcount_append [simp]: "tcount P (xs @ ys) = tcount P xs + tcount P ys"
  by (simp add: tcount_def)

lemma tcbs_append [simp]: "tcbs (xs @ ys) = tcbs xs \<union> tcbs ys"
  by (auto simp: tcbs_def)

lemma processCommand_flip:
  "commandBranch (trim (toLowerCase c)) = Flip \<Longrightarrow>
   processCommand clk c s = ([''''], executeExit (s\<lparr>terminalLines := []\<rparr>))"
  by (simp add: processCommand_def)

lemma processCommand_other:
  "commandBranch (trim (toLowerCase c)) \<noteq> Flip \<Longrightarrow>
   snd (processCommand clk c s) = s\<lparr>terminalLines := []\<rparr>"
  by (simp add: processCommand_def Let_def split: branch.splits)

lemma handleInputSubmit_blocked:
  "isExitSequenceActive s \<Longrightarrow> handleInputSubmit clk k s = s"
  by (simp add: handleInputSubmit_def)

lemma handleInputSubmit_command:
  assumes "\<not> isExitSequenceActive s" and "userInput s = Some u" and "trim u \<noteq> ''''"
    and "commandBranch (trim (toLowerCase (trim u))) \<noteq> Flip"
  shows "handleInputSubmit clk Enter s =
     s\<lparr>terminalLines :=
         (if jsIndex (fst (processCommand clk (trim u) s)) 0 = Some ''CLEAR_SCREEN'' then []
          else [''root@anatole:~$ '' @ trim u] @ fst (processCommand clk (trim u) s) @ ['''']),
       commandHistory := commandHistory s @ [trim u], historyIndex := - 1,
       userInput := Some '''',
       timers := timers s @ [(nextTimerId s, False, FocusInput)],
       nextTimerId := Suc (nextTimerId s)\<rparr>"
proof -
  obtain r where p: "processCommand clk (trim u) s = (r, s\<lparr>terminalLines := []\<rparr>)"
    using processCommand_other[OF assms(4), of clk s] by (cases "processCommand clk (trim u) s") simp
  show ?thesis
    using assms(1-3) p
    by (cases "jsIndex r 0 = Some ''CLEAR_SCREEN''")
       (simp_all add: handleInputSubmit_def setTimeout_def Let_def)
qed

lemma handleInputSubmit_flip:
  assumes "\<not> isExitSequenceActive s" and "userInput s = Some u" and "trim u \<noteq> ''''"
    and "commandBranch (trim (toLowerCase (trim u))) = Flip"
  shows "handleInputSubmit clk Enter s =
     s\<lparr>terminalLines := [''root@anatole:~$ '' @ trim u, '''', ''''],
       commandHistory := commandHistory s @ [trim u], historyIndex := - 1,
       userInput := Some '''',
       isExitSequenceActive := True, isInteractive := False,
       exitTriggered := exitTriggered s @ [True],
       exitTimeoutsRef := [nextTimerId s],
       timers := filter (\<lambda>t. fst t \<notin> set (exitTimeoutsRef s)) (timers s)
                   @ [(nextTimerId s, False, ExitInitial), (Suc (nextTimerId s), False, FocusInput)],
       nextTimerId := Suc (Suc (nextTimerId s))\<rparr>"
  using assms
  by (simp add: handleInputSubmit_def processCommand_flip executeExit_eq setTimeout_def jsIndex_def Let_def)

lemma handleInputSubmit_keeps:
  "showBSOD (handleInputSubmit clk k s) = showBSOD s \<and>
   countdown (handleInputSubmit clk k s) = countdown s"
proof (cases "isExitSequenceActive s")
  case True
  then show ?thesis by (simp add: handleInputSubmit_blocked)
next
  case ne: False
  show ?thesis
  proof (cases k)
    case Enter
    show ?thesis
    proof (cases "userInput s")
      case None
      with ne Enter show ?thesis by (simp add: handleInputSubmit_def)
    next
      case (Some u)
      show ?thesis
      proof (cases "trim u = ''''")
        case True
        with ne Enter Some show ?thesis by (simp add: handleInputSubmit_def)
      next
        case nb: False
        show ?thesis
        proof (cases "commandBranch (trim (toLowerCase (trim u))) = Flip")
          case True
          from handleInputSubmit_flip[OF ne Some nb True, of clk] Enter
          show ?thesis by simp
        next
          case False
          from handleInputSubmit_command[OF ne Some nb False, of clk] Enter
          show ?thesis by simp
        qed
      qed
    qed
  qed (simp_all add: handleInputSubmit_def Let_def)
qed

lemma Inv_handleInputSubmit:
  assumes "Inv s" and "isInteractive s"
  shows "Inv (handleInputSubmit clk k s)"
proof (cases "isExitSequenceActive s")
  case True
  with assms show ?thesis by (simp add: handleInputSubmit_blocked)
next
  case ne: False
  from assms(1) have hr: "historyInRange s" and ui: "userInput s \<noteq> None"
    by (simp_all add: Inv_def)
  show ?thesis
  proof (cases k)
    case Enter
    show ?thesis
    proof (cases "userInput s")
      case None
      with ne Enter assms show ?thesis by (simp add: handleInputSubmit_def)
    next
      case (Some u)
      show ?thesis
      proof (cases "trim u = ''''")
        case True
        with ne Enter Some assms show ?thesis by (simp add: handleInputSubmit_def)
      next
        case nb: False
        show ?thesis
        proof (cases "commandBranch (trim (toLowerCase (trim u))) = Flip")
          case True
          show ?thesis
            unfolding Enter handleInputSubmit_flip[OF ne Some nb True]
            using assms ne
            by (auto simp: Inv_def historyInRange_def isExitChain_def isTyping_def isIntervalCb_def)
        next
          case False
          note handleInputSubmit_command[OF ne Some nb False, of clk]
          then show ?thesis
            unfolding Enter
            using assms ne
            by (auto simp: Inv_def historyInRange_def isExitChain_def isTyping_def isIntervalCb_def)
        qed
      qed
    qed
  next
    case ArrowUp
    with ne assms hr show ?thesis
      by (auto simp: handleInputSubmit_def Let_def Inv_def historyInRange_def jsIndex_def)
  next
    case ArrowDown
    with ne assms hr show ?thesis
      by (auto simp: handleInputSubmit_def Let_def Inv_def historyInRange_def jsIndex_def)
  next
    case (OtherKey x)
    with ne assms show ?thesis by (simp add: handleInputSubmit_def)
  qed
qed

lemma step_Some:
  "step e ev s = Some s' \<Longrightarrow>
   mounted s \<and> \<not> reloaded s \<and> (\<exists>s1. handle e ev s = Some s1 \<and> s' = countdownEffect s s1)"
  by (auto simp: step_def split: if_splits)

lemma handle_Fire:
  "handle e (Fire h) s = Some s1 \<Longrightarrow>
   \<exists>r cb. map_of (timers s) h = Some (r, cb) \<and>
     s1 = runCallback e cb (if r then s else clearTimeout h s)"
  by (auto split: option.splits)

lemma clearTimeout_keeps [simp]:
  "showBSOD (clearTimeout h s) = showBSOD s" "countdown (clearTimeout h s) = countdown s"
  by (simp_all add: clearTimeout_def)

lemma fetchIPInfo_Inr: "\<exists>ipInfo. fetchIPInfo nv nt retries = Inr ipInfo"
  using fetch_loop_returns[of nt retries 1] by (auto simp: fetchIPInfo_def)

lemma Inv_fired:
  assumes inv: "Inv s" and m: "map_of (timers s) h = Some (r, cb)"
  shows "Inv (countdownEffect s (runCallback e cb (if r then s else clearTimeout h s)))"
proof (cases "isIntervalCb cb")
  case True
  have "Inv (if r then s else clearTimeout h s)"
    using inv by (simp add: Inv_clearTimeout)
  then have "Inv (runCallback e cb (if r then s else clearTimeout h s))"
    using True by (rule Inv_interval)
  moreover have "countdownEffect s (runCallback e cb (if r then s else clearTimeout h s))
      = runCallback e cb (if r then s else clearTimeout h s)"
    using interval_keeps[OF True, of e "if r then s else clearTimeout h s"]
    by (intro countdownEffect_same) (simp_all split: if_splits)
  ultimately show ?thesis by simp
next
  case False
  with inv m have r: "\<not> r" by (rule one_shot)
  from m r have m': "map_of (timers s) h = Some (False, cb)" by simp
  show ?thesis
  proof (cases cb)
    case TypeCharacter
    have "countdownEffect s (typeCharacter e (clearTimeout h s)) = typeCharacter e (clearTimeout h s)"
      by (intro countdownEffect_same) (simp_all add: typeCharacter_keeps)
    with Inv_typeCharacter[OF inv m'[unfolded TypeCharacter]] r TypeCharacter
    show ?thesis by simp
  next
    case TypeExitSequence
    have "countdownEffect s (typeExitSequence (clearTimeout h s)) = typeExitSequence (clearTimeout h s)"
      by (intro countdownEffect_same) (simp_all add: typeExitSequence_keeps)
    with Inv_typeExitSequence[OF inv m'[unfolded TypeExitSequence]] r TypeExitSequence
    show ?thesis by simp
  next
    case ExitInitial
    let ?t = "typeExitSequence ((clearTimeout h s)\<lparr>exitLineIndex := 0, exitCharIndex := 0\<rparr>)"
    have "countdownEffect s ?t = ?t"
      by (intro countdownEffect_same) (simp_all add: typeExitSequence_keeps)
    with Inv_exitInitial[OF inv m'[unfolded ExitInitial]] r ExitInitial
    show ?thesis by simp
  next
    case BsodTimeout
    with Inv_bsod[OF inv m'[unfolded BsodTimeout]] r show ?thesis by simp
  next
    case (CountdownTick c)
    with Inv_tick[OF inv m'[unfolded CountdownTick]] r show ?thesis by simp
  next
    case FocusInput
    have "countdownEffect s (clearTimeout h s) = clearTimeout h s"
      by (intro countdownEffect_same) simp_all
    with Inv_clearTimeout[OF inv, of h] r FocusInput show ?thesis by simp
  qed (use False in \<open>simp_all add: isIntervalCb_def\<close>)
qed

lemma Inv_step:
  assumes inv: "Inv s" and st: "step e ev s = Some s'"
  shows "Inv s'"
proof -
  from step_Some[OF st] obtain s1 where
    live: "mounted s" "\<not> reloaded s" and h: "handle e ev s = Some s1" and s': "s' = countdownEffect s s1"
    by blast
  show ?thesis
  proof (cases ev)
    case (Fire x)
    from handle_Fire[OF h[unfolded Fire]] obtain r cb where
      "map_of (timers s) x = Some (r, cb)" "s1 = runCallback e cb (if r then s else clearTimeout x s)"
      by blast
    with Inv_fired[OF inv this(1), of e] s' show ?thesis by simp
  next
    case FetchSettled
    obtain ipInfo where f: "fetchIPInfo (nav e) (net e) 1 = Inr ipInfo"
      using fetchIPInfo_Inr by blast
    with h FetchSettled have s1: "s1 = applyIpInfo ipInfo (s\<lparr>fetchPending := False\<rparr>)"
      by (simp split: if_splits)
    have "countdownEffect s s1 = s1"
      by (intro countdownEffect_same) (simp_all add: s1 applyIpInfo_def)
    with inv s' s1 show ?thesis by (simp add: Inv_applyIpInfo Inv_irrelevant)
  next
    case (KeyDown k clk)
    with h have i: "isInteractive s" and s1: "s1 = handleInputSubmit clk k s"
      by (simp_all add: inputRendered_def split: if_splits)
    have "countdownEffect s s1 = s1"
      by (intro countdownEffect_same) (simp_all add: s1 handleInputSubmit_keeps)
    with inv i s' s1 show ?thesis by (simp add: Inv_handleInputSubmit)
  next
    case (Change v)
    with h have s1: "s1 = s\<lparr>userInput := Some v\<rparr>"
      by (simp split: if_splits)
    have "countdownEffect s s1 = s1"
      by (intro countdownEffect_same) (simp_all add: s1)
    with inv s' s1 show ?thesis by (simp add: Inv_change)
  next
    case RestartClick
    with h have b: "showBSOD s" and s1: "s1 = s\<lparr>reloaded := True\<rparr>"
      by (simp_all split: if_splits)
    have "countdownEffect s s1 = s1"
      by (intro countdownEffect_same) (simp_all add: s1)
    with inv b s' s1 show ?thesis by (simp add: Inv_reload)
  next
    case Unmount
    with h have s1: "s1 = unmount s" by simp
    have "countdownEffect s s1 = s1"
      by (intro countdownEffect_same) (simp_all add: s1 unmount_eq)
    with inv s' s1 show ?thesis by (simp add: Inv_unmount)
  qed
qed

lemma reachable_Inv: "reachable e s \<Longrightarrow> Inv s"
  by (induction rule: reachable.induct) (auto intro: Inv_mount Inv_step)

lemma run_append:
  "run e (evs @ evs') s = (case run e evs s of None \<Rightarrow> None | Some s' \<Rightarrow> run e evs' s')"
  by (induction evs arbitrary: s) (auto split: option.splits)

lemma run_reachable: "reachable e s \<Longrightarrow> run e evs s = Some s' \<Longrightarrow> reachable e s'"
proof (induction evs arbitrary: s)
  case Nil
  then show ?case by simp
next
  case (Cons ev evs)
  then show ?case
    by (auto split: option.splits intro: reach_step)
qed

lemma countdownEffect_flags: "flags (countdownEffect s s1) = flags s1"
  by (cases "countdownTimer s1")
     (simp_all add: flags_def countdownEffect_def Let_def setTimeout_def clearTimeout_def)

lemma typeCharacter_flags:
  "flags (typeCharacter e s) =
     (isInteractive s \<or> 14 \<le> lineIndex s, isExitSequenceActive s, showBSOD s, reloaded s, countdown s)"
  by (simp add: flags_def typeCharacter_def setTimeout_def Let_def)

lemma typeExitSequence_flags: "flags (typeExitSequence s) = flags s"
  by (simp add: flags_def typeExitSequence_def setTimeout_def Let_def)

lemma interval_flags: "isIntervalCb cb \<Longrightarrow> flags (runCallback e cb s) = flags s"
  by (cases cb) (simp_all add: isIntervalCb_def flags_def clearInterval_def clearTimeout_def)

lemma clearTimeout_flags [simp]: "flags (clearTimeout h s) = flags s"
  by (simp add: flags_def clearTimeout_def)

lemma handleInputSubmit_flags:
  assumes "isInteractive s" and "\<not> isExitSequenceActive s"
  shows "flags (handleInputSubmit clk k s) = flags s \<or>
         flags (handleInputSubmit clk k s) = (False, True, showBSOD s, reloaded s, countdown s)"
proof (cases k)
  case Enter
  show ?thesis
  proof (cases "userInput s")
    case None
    with assms Enter show ?thesis by (simp add: handleInputSubmit_def)
  next
    case (Some u)
    show ?thesis
    proof (cases "trim u = ''''")
      case True
      with assms Enter Some show ?thesis by (simp add: handleInputSubmit_def)
    next
      case nb: False
      show ?thesis
      proof (cases "commandBranch (trim (toLowerCase (trim u))) = Flip")
        case True
        show ?thesis
          unfolding Enter handleInputSubmit_flip[OF assms(2) Some nb True]
          by (simp add: flags_def)
      next
        case False
        show ?thesis
          unfolding Enter handleInputSubmit_command[OF assms(2) Some nb False]
          by (simp add: flags_def)
      qed
    qed
  qed
qed (simp_all add: handleInputSubmit_def Let_def flags_def)

text \<open>A step leaves the flags alone, or it is one of the four transitions: the last
  tick of the typing animation, the start of the exit sequence, the crash screen, a tick
  of the countdown, the reload.\<close>

lemma step_summary:
  assumes inv: "Inv s" and st: "step e ev s = Some s'"
  shows "flags s' = flags s
     \<or> (\<exists>h. ev = Fire h \<and> map_of (timers s) h = Some (False, TypeCharacter) \<and>
           \<not> isInteractive s \<and> \<not> isExitSequenceActive s \<and> 14 \<le> lineIndex s \<and>
           flags s' = (True, False, showBSOD s, reloaded s, countdown s))
     \<or> (\<exists>k clk. ev = KeyDown k clk \<and> isInteractive s \<and> \<not> isExitSequenceActive s \<and>
           flags s' = (False, True, showBSOD s, reloaded s, countdown s))
     \<or> (\<exists>h. ev = Fire h \<and> map_of (timers s) h = Some (False, BsodTimeout) \<and>
           isExitSequenceActive s \<and> \<not> showBSOD s \<and>
           flags s' = (isInteractive s, True, True, reloaded s, 7))
     \<or> (\<exists>h c. ev = Fire h \<and> map_of (timers s) h = Some (False, CountdownTick c) \<and>
           showBSOD s \<and> 0 < countdown s \<and> c = countdown s \<and>
           flags s' = (isInteractive s, isExitSequenceActive s, True, reloaded s, countdown s - 1))
     \<or> (ev = RestartClick \<and> showBSOD s \<and> showRestartButton s \<and>
           flags s' = (isInteractive s, isExitSequenceActive s, True, True, countdown s))"
proof -
  from step_Some[OF st] obtain s1 where
    live: "mounted s" "\<not> reloaded s" and h: "handle e ev s = Some s1" and s': "s' = countdownEffect s s1"
    by blast
  have fl: "flags s' = flags s1" by (simp add: s' countdownEffect_flags)
  show ?thesis
  proof (cases ev)
    case (Fire x)
    from handle_Fire[OF h[unfolded Fire]] obtain r cb where
      m: "map_of (timers s) x = Some (r, cb)" and
      s1: "s1 = runCallback e cb (if r then s else clearTimeout x s)"
      by blast
    show ?thesis
    proof (cases "isIntervalCb cb")
      case True
      then have "flags s1 = flags s" by (simp add: s1 interval_flags)
      with fl show ?thesis by simp
    next
      case False
      with inv m have r: "\<not> r" by (rule one_shot)
      show ?thesis
      proof (cases cb)
        case TypeCharacter
        have nz: "tcount isTyping (timers s) \<noteq> 0"
          using m by (rule tcount_pending) (simp add: TypeCharacter isTyping_def)
        with inv have st0: "\<not> isInteractive s" "\<not> isExitSequenceActive s"
          by (auto simp: Inv_def)
        have "flags s1 = (14 \<le> lineIndex s, False, showBSOD s, reloaded s, countdown s)"
          using r st0 by (simp add: s1 TypeCharacter typeCharacter_flags clearTimeout_def)
        with fl m r st0 TypeCharacter Fire show ?thesis
          by (cases "14 \<le> lineIndex s") (simp_all add: flags_def)
      next
        case TypeExitSequence
        with r have "flags s1 = flags s" by (simp add: s1 typeExitSequence_flags)
        with fl show ?thesis by simp
      next
        case ExitInitial
        with r have "flags s1 = flags s" by (simp add: s1 typeExitSequence_flags) (simp add: flags_def clearTimeout_def)
        with fl show ?thesis by simp
      next
        case BsodTimeout
        have c: "isExitChain BsodTimeout" by (simp add: isExitChain_def)
        from m r BsodTimeout have m': "map_of (timers s) x = Some (False, BsodTimeout)" by simp
        note p = exit_pending[OF inv m' c]
        have "flags s1 = (isInteractive s, True, True, reloaded s, 7)"
          using r p by (simp add: s1 BsodTimeout flags_def clearTimeout_def)
        with fl m' p Fire show ?thesis by simp
      next
        case (CountdownTick c)
        from m r CountdownTick have m': "map_of (timers s) x = Some (False, CountdownTick c)" by simp
        from Inv_tickD[OF inv tcbs_pending[OF m']] have pre: "showBSOD s" "c = countdown s" "0 < c"
          by simp_all
        have "flags s1 = (isInteractive s, isExitSequenceActive s, True, reloaded s, countdown s - 1)"
          using r pre by (simp add: s1 CountdownTick flags_def clearTimeout_def)
        with fl m' pre Fire show ?thesis by simp
      next
        case FocusInput
        with r have "flags s1 = flags s" by (simp add: s1)
        with fl show ?thesis by simp
      qed (use False in \<open>simp_all add: isIntervalCb_def\<close>)
    qed
  next
    case FetchSettled
    obtain ipInfo where f: "fetchIPInfo (nav e) (net e) 1 = Inr ipInfo"
      using fetchIPInfo_Inr by blast
    with h FetchSettled have "s1 = applyIpInfo ipInfo (s\<lparr>fetchPending := False\<rparr>)"
      by (simp split: if_splits)
    then have "flags s1 = flags s" by (simp add: flags_def applyIpInfo_def)
    with fl show ?thesis by simp
  next
    case (KeyDown k clk)
    with h have i: "isInteractive s" "\<not> isExitSequenceActive s" and s1: "s1 = handleInputSubmit clk k s"
      by (simp_all add: inputRendered_def split: if_splits)
    from handleInputSubmit_flags[OF i, of clk k] fl s1 i KeyDown show ?thesis by auto
  next
    case (Change v)
    with h have "s1 = s\<lparr>userInput := Some v\<rparr>"
      by (simp split: if_splits)
    then have "flags s1 = flags s" by (simp add: flags_def)
    with fl show ?thesis by simp
  next
    case RestartClick
    with h have b: "showBSOD s" "showRestartButton s" and s1: "s1 = s\<lparr>reloaded := True\<rparr>"
      by (simp_all split: if_splits)
    then have "flags s1 = (isInteractive s, isExitSequenceActive s, True, True, countdown s)"
      by (simp add: flags_def)
    with fl b RestartClick show ?thesis by simp
  next
    case Unmount
    with h have "s1 = unmount s" by simp
    then have "flags s1 = flags s" by (simp add: flags_def unmount_eq)
    with fl show ?thesis by simp
  qed
qed

lemma stage_flags: "stage s = (case flags s of (i, x, b, r, c) \<Rightarrow>
    if r then 4 else if b then 3 else if x then 2 else if i then 1 else 0)"
  by (simp add: stage_def flags_def)

lemma stage_step:
  assumes "reachable e s" and st: "step e ev s = Some s'"
  shows "stage s' = stage s \<or> stage s' = Suc (stage s)"
proof -
  have inv: "Inv s" using assms(1) by (rule reachable_Inv)
  from step_Some[OF st] have live: "\<not> reloaded s" by simp
  from inv have ord: "showBSOD s \<longrightarrow> isExitSequenceActive s" "isExitSequenceActive s \<longrightarrow> \<not> isInteractive s"
    by (simp_all add: Inv_def)
  from step_summary[OF inv st] live ord show ?thesis
    by (elim disjE exE conjE) (auto simp: stage_flags flags_def)
qed

lemma history_arrow:
  assumes "historyInRange s" and "k = ArrowUp \<or> k = ArrowDown"
  shows "historyInRange (handleInputSubmit clk k s)"
  using assms
  by (auto simp: handleInputSubmit_def Let_def historyInRange_def)

lemma history_arrows:
  "historyInRange s \<Longrightarrow> set ks \<subseteq> {ArrowUp, ArrowDown} \<Longrightarrow>
   historyInRange (fold (handleInputSubmit clk) ks s)"
proof (induction ks arbitrary: s)
  case Nil
  then show ?case by simp
next
  case (Cons k ks)
  from Cons.prems have "k = ArrowUp \<or> k = ArrowDown" by auto
  with Cons.prems(1) have "historyInRange (handleInputSubmit clk k s)" by (rule history_arrow)
  with Cons show ?case by simp
qed

subsection \<open>Ticks of the two typing loops\<close>

lemma step_typeCharacter:
  assumes "Inv s" and "mounted s" and "\<not> reloaded s"
    and m: "map_of (timers s) h = Some (r, TypeCharacter)"
  shows "step e (Fire h) s = Some (typeCharacter e (clearTimeout h s))"
proof -
  have r: "\<not> r" using assms(1) m by (rule one_shot) (simp add: isIntervalCb_def)
  have "countdownEffect s (typeCharacter e (clearTimeout h s)) = typeCharacter e (clearTimeout h s)"
    by (intro countdownEffect_same) (simp_all add: typeCharacter_keeps)
  with assms r show ?thesis by (simp add: step_def)
qed

lemma step_typeExitSequence:
  assumes "Inv s" and "mounted s" and "\<not> reloaded s"
    and m: "map_of (timers s) h = Some (r, TypeExitSequence)"
  shows "step e (Fire h) s = Some (typeExitSequence (clearTimeout h s))"
proof -
  have r: "\<not> r" using assms(1) m by (rule one_shot) (simp add: isIntervalCb_def)
  have "countdownEffect s (typeExitSequence (clearTimeout h s)) = typeExitSequence (clearTimeout h s)"
    by (intro countdownEffect_same) (simp_all add: typeExitSequence_keeps)
  with assms r show ?thesis by (simp add: step_def)
qed

lemma last_setLast: "xs \<noteq> [] \<Longrightarrow> last (setLast xs v) = v"
  by (simp add: setLast_def)

lemma typing_stage:
  assumes "Inv s" and m: "map_of (timers s) h = Some (r, TypeCharacter)"
  shows "\<not> isInteractive s" and "\<not> isExitSequenceActive s"
    and "length (terminalLines s) = lineIndex s + (if charIndex s = 0 then 0 else 1)"
proof -
  have nz: "tcount isTyping (timers s) \<noteq> 0"
    using m by (rule tcount_pending) (simp add: isTyping_def)
  with assms(1) show a: "\<not> isInteractive s" "\<not> isExitSequenceActive s"
    by (auto simp: Inv_def)
  with assms(1) show "length (terminalLines s) = lineIndex s + (if charIndex s = 0 then 0 else 1)"
    by (simp add: Inv_def)
qed

lemma typeCharacter_prefix:
  assumes re: "reachable e s" and live: "mounted s" "\<not> reloaded s"
    and m: "map_of (timers s) h = Some (r, TypeCharacter)"
    and li: "lineIndex s < length (scriptLines e (ipInfoRef s))"
    and ci: "charIndex s < length (scriptLines e (ipInfoRef s) ! lineIndex s)"
  shows "\<exists>s'. step e (Fire h) s = Some s' \<and> terminalLines s' \<noteq> [] \<and>
           last (terminalLines s') = take (Suc (charIndex s)) (scriptLines e (ipInfoRef s) ! lineIndex s) \<and>
           charIndex s' = Suc (charIndex s) \<and> lineIndex s' = lineIndex s \<and> ipInfoRef s' = ipInfoRef s"
proof -
  have inv: "Inv s" using re by (rule reachable_Inv)
  let ?s = "clearTimeout h s"
  have ne: "opened ?s \<noteq> []"
    using typing_stage(3)[OF inv m] by (auto simp: opened_def clearTimeout_def)
  have c: "lineIndex ?s < 14" "charIndex ?s < length (scriptLines e (ipInfoRef ?s) ! lineIndex ?s)"
    using li ci by (simp_all add: clearTimeout_def)
  show ?thesis
    unfolding step_typeCharacter[OF inv live m] typeCharacter_char[OF c]
    using ne by (simp add: last_setLast clearTimeout_def)
qed

lemma typeExitSequence_prefix:
  assumes re: "reachable e s" and live: "mounted s" "\<not> reloaded s"
    and m: "map_of (timers s) h = Some (r, TypeExitSequence)"
    and li: "exitLineIndex s < length exitSequence"
    and ci: "exitCharIndex s < length (exitSequence ! exitLineIndex s)"
  shows "\<exists>s'. step e (Fire h) s = Some s' \<and> terminalLines s' \<noteq> [] \<and>
           last (terminalLines s') = take (Suc (exitCharIndex s)) (exitSequence ! exitLineIndex s) \<and>
           exitCharIndex s' = Suc (exitCharIndex s) \<and> exitLineIndex s' = exitLineIndex s"
proof -
  have inv: "Inv s" using re by (rule reachable_Inv)
  let ?s = "clearTimeout h s"
  have c: "exitLineIndex ?s < 30" "exitSequence ! exitLineIndex ?s \<noteq> ''''"
      "exitCharIndex ?s < length (exitSequence ! exitLineIndex ?s)"
    using li ci by (auto simp: clearTimeout_def)
  have r: "\<not> r" using inv m by (rule one_shot) (simp add: isIntervalCb_def)
  have "isExitChain TypeExitSequence" by (simp add: isExitChain_def)
  with inv m r have "terminalLines s \<noteq> []" by (intro exit_pending(5)[of s h]) simp_all
  then have ne: "openedExit ?s \<noteq> []"
    by (simp add: openedExit_def clearTimeout_def)
  show ?thesis
    unfolding step_typeExitSequence[OF inv live m] typeExitSequence_char[OF c]
    using ne by (simp add: last_setLast clearTimeout_def)
qed

subsection \<open>The terminal during the typing animation\<close>

lemma scriptLines_upd: "scriptLines e a = (scriptLines e b)[2 := traceLine a]"
  by (simp add: scriptLines_def)

lemma scriptLines_nth_trace [simp]: "scriptLines e a ! 2 = traceLine a"
  by (simp add: scriptLines_def)

lemma scriptLines_nth_other: "i \<noteq> 2 \<Longrightarrow> scriptLines e a ! i = scriptLines e b ! i"
  by (subst scriptLines_upd[of e a b]) simp

lemma unmarked_nth:
  assumes "unmarked e" and "i < 14" and "i \<noteq> 2"
  shows "\<not> includesStr (scriptLines e a ! i) MARKER"
proof -
  let ?ls = "scriptLines e ''''"
  have "?ls ! i \<in> set (otherLines e)"
  proof (cases "i < 2")
    case True
    then have "?ls ! i = take 2 ?ls ! i" by simp
    moreover have "take 2 ?ls ! i \<in> set (take 2 ?ls)"
      using True by (intro nth_mem) simp
    ultimately show ?thesis by (simp add: otherLines_def)
  next
    case False
    with assms have "3 \<le> i" by simp
    then have "?ls ! i = drop 3 ?ls ! (i - 3)" by simp
    moreover have "drop 3 ?ls ! (i - 3) \<in> set (drop 3 ?ls)"
      using assms \<open>3 \<le> i\<close> by (intro nth_mem) simp
    ultimately show ?thesis by (simp add: otherLines_def)
  qed
  with assms(1) have "\<not> includesStr (?ls ! i) MARKER" by (simp add: unmarked_def)
  with scriptLines_nth_other[OF assms(3), of e a "''''"] show ?thesis by simp
qed

lemma includesStr_take: "includesStr (take c l) m \<Longrightarrow> includesStr l m"
  unfolding includesStr_def
  using sublist_order.order.trans[OF _ sublist_take] by blast

lemma traceLine_split:
  "traceLine a = ''<span class=\"text-yellow-400\">'' @ MARKER @ (''</span> <span class=\"text-white\">'' @ a @ ''</span>'')"
  by (simp add: traceLine_def MARKER_def)

lemma includesStr_traceLine: "includesStr (traceLine a) MARKER"
  unfolding includesStr_def traceLine_split by (rule sublist_appendI)

lemma take_before_block:
  assumes "\<not> sublist m (take c (p @ m @ r))"
  shows "take c (p @ m @ r) = take c (p @ m @ r')"
proof -
  have c: "c < length (p @ m)"
  proof (rule ccontr)
    assume "\<not> c < length (p @ m)"
    then have "take c ((p @ m) @ r) = (p @ m) @ take (c - length (p @ m)) r"
      by (simp del: append_assoc)
    then have "take c (p @ m @ r) = p @ m @ take (c - length (p @ m)) r" by simp
    then have "sublist m (take c (p @ m @ r))" by (metis sublist_appendI)
    with assms show False by simp
  qed
  then have "c - length (p @ m) = 0" by simp
  then have "take c ((p @ m) @ r) = take c (p @ m)" "take c ((p @ m) @ r') = take c (p @ m)"
    by (simp_all only: take_append take_0 append_Nil2)
  then show ?thesis by (simp only: append_assoc)
qed

lemma traceLine_prefix:
  assumes "\<not> includesStr (take c (traceLine a)) MARKER"
  shows "take c (traceLine a) = take c (traceLine b)"
  using assms unfolding includesStr_def traceLine_split by (rule take_before_block)

lemma TInv_tview: "tview s' = tview s \<Longrightarrow> TInv e s' = TInv e s"
  by (simp add: tview_def TInv_def)

lemma TInv_later: "isInteractive s \<or> isExitSequenceActive s \<Longrightarrow> TInv e s"
  by (auto simp: TInv_def)

lemma TInv_mount: "TInv e (mount e)"
  by (simp add: TInv_def mount_def typeCharacter_def initialState_def setTimeout_def setInterval_def
      Let_def scriptLines_def)

lemma take_all_eq: "length xs \<le> n \<Longrightarrow> take n xs = xs"
  by simp

lemma TInv_typeCharacter:
  assumes t: "TInv e s" and st: "\<not> isInteractive s" "\<not> isExitSequenceActive s"
  shows "TInv e (typeCharacter e (clearTimeout h s))"
proof -
  let ?s = "clearTimeout h s"
  let ?Ls = "scriptLines e (ipInfoRef s)"
  from t st have le: "lineIndex s \<le> 14" by (simp add: TInv_def)
  consider (fin) "14 \<le> lineIndex ?s"
    | (chr) "lineIndex ?s < 14" "charIndex ?s < length (scriptLines e (ipInfoRef ?s) ! lineIndex ?s)"
    | (lin) "lineIndex ?s < 14" "\<not> charIndex ?s < length (scriptLines e (ipInfoRef ?s) ! lineIndex ?s)"
    by linarith
  then show ?thesis
  proof cases
    case fin
    then show ?thesis by (simp add: typeCharacter_done TInv_def)
  next
    case chr
    then have li: "lineIndex s < 14" and ci: "charIndex s < length (?Ls ! lineIndex s)"
      by (simp_all add: clearTimeout_def)
    show ?thesis
    proof (cases "charIndex s = 0")
      case True
      with t st have "terminalLines s = take (lineIndex s) ?Ls" by (simp add: TInv_def)
      with True li st show ?thesis
        unfolding typeCharacter_char[OF chr]
        by (simp add: TInv_def clearTimeout_def opened_def setLast_def)
    next
      case False
      with t st have "\<exists>x. terminalLines s = take (lineIndex s) ?Ls @ [x]"
        by (auto simp: TInv_def)
      then obtain x where "terminalLines s = take (lineIndex s) ?Ls @ [x]" ..
      with False li st show ?thesis
        unfolding typeCharacter_char[OF chr]
        by (simp add: TInv_def clearTimeout_def opened_def setLast_def)
    qed
  next
    case lin
    then have li: "lineIndex s < 14" and ci: "length (?Ls ! lineIndex s) \<le> charIndex s"
      by (simp_all add: clearTimeout_def)
    have nxt: "take (Suc (lineIndex s)) ?Ls = take (lineIndex s) ?Ls @ [?Ls ! lineIndex s]"
      using li by (simp add: take_Suc_conv_app_nth)
    show ?thesis
    proof (cases "charIndex s = 0")
      case True
      with ci have "?Ls ! lineIndex s = ''''" by simp
      moreover from True t st have "terminalLines s = take (lineIndex s) ?Ls" by (simp add: TInv_def)
      ultimately show ?thesis
        unfolding typeCharacter_line[OF lin]
        using True li st nxt by (simp add: TInv_def clearTimeout_def opened_def)
    next
      case False
      from ci have "take (charIndex s) (?Ls ! lineIndex s) = ?Ls ! lineIndex s" by simp
      with False t st have "terminalLines s = take (lineIndex s) ?Ls @ [?Ls ! lineIndex s]"
        by (auto simp: TInv_def)
      then show ?thesis
        unfolding typeCharacter_line[OF lin]
        using False li st nxt by (simp add: TInv_def clearTimeout_def opened_def)
    qed
  qed
qed

lemma TInv_applyIpInfo:
  assumes u: "unmarked e" and t: "TInv e s"
  shows "TInv e (applyIpInfo b s)"
proof (cases "\<not> isInteractive s \<and> \<not> isExitSequenceActive s")
  case False
  then show ?thesis by (intro TInv_later) (simp add: applyIpInfo_def)
next
  case st: True
  define f where "f = (\<lambda>line. if includesStr line MARKER then traceLine b else line)"
  let ?Ls = "scriptLines e (ipInfoRef s)"
  let ?Ls' = "scriptLines e b"
  have F1: "f (?Ls ! i) = ?Ls' ! i" if "i < 14" for i
  proof (cases "i = 2")
    case True
    then show ?thesis by (simp add: f_def includesStr_traceLine)
  next
    case False
    with unmarked_nth[OF u that False] scriptLines_nth_other[OF False, of e "ipInfoRef s" b]
    show ?thesis by (simp add: f_def)
  qed
  have "map f ?Ls = ?Ls'"
    by (rule nth_equalityI) (simp_all add: F1)
  then have F2: "map f (take n ?Ls) = take n ?Ls'" for n
    by (simp add: take_map[symmetric])
  from t st have le: "lineIndex s \<le> 14" by (simp add: TInv_def)
  have tl: "terminalLines (applyIpInfo b s) = map f (terminalLines s)"
    by (simp add: applyIpInfo_def f_def)
  show ?thesis
  proof (cases "charIndex s = 0")
    case True
    with t st have "terminalLines s = take (lineIndex s) ?Ls" by (simp add: TInv_def)
    with True st le tl F2 show ?thesis
      by (simp add: TInv_def applyIpInfo_def)
  next
    case False
    with t st have li: "lineIndex s < 14" and
      d: "terminalLines s = take (lineIndex s) ?Ls @ [take (charIndex s) (?Ls ! lineIndex s)]
          \<or> (lineIndex s = 2 \<and> terminalLines s = take 2 ?Ls @ [?Ls ! 2])"
      by (simp_all add: TInv_def)
    have x: "f (take (charIndex s) (?Ls ! lineIndex s)) = take (charIndex s) (?Ls' ! lineIndex s)
        \<or> (lineIndex s = 2 \<and> f (take (charIndex s) (?Ls ! lineIndex s)) = ?Ls' ! 2)"
    proof (cases "lineIndex s = 2")
      case True
      show ?thesis
      proof (cases "includesStr (take (charIndex s) (traceLine (ipInfoRef s))) MARKER")
        case True
        with \<open>lineIndex s = 2\<close> show ?thesis by (simp add: f_def)
      next
        case False
        from traceLine_prefix[OF False, of b] False \<open>lineIndex s = 2\<close>
        show ?thesis by (simp add: f_def)
      qed
    next
      case False
      from unmarked_nth[OF u li False, of "ipInfoRef s"]
      have "\<not> includesStr (take (charIndex s) (?Ls ! lineIndex s)) MARKER"
        using includesStr_take by blast
      with scriptLines_nth_other[OF False, of e "ipInfoRef s" b] show ?thesis
        by (simp add: f_def)
    qed
    have fields: "isInteractive (applyIpInfo b s) = isInteractive s"
        "isExitSequenceActive (applyIpInfo b s) = isExitSequenceActive s"
        "lineIndex (applyIpInfo b s) = lineIndex s" "charIndex (applyIpInfo b s) = charIndex s"
        "ipInfoRef (applyIpInfo b s) = b"
      by (simp_all add: applyIpInfo_def)
    have "terminalLines (applyIpInfo b s) = take (lineIndex s) ?Ls' @ [take (charIndex s) (?Ls' ! lineIndex s)]
          \<or> (lineIndex s = 2 \<and> terminalLines (applyIpInfo b s) = take 2 ?Ls' @ [?Ls' ! 2])"
      using d
    proof
      assume "terminalLines s = take (lineIndex s) ?Ls @ [take (charIndex s) (?Ls ! lineIndex s)]"
      then have "terminalLines (applyIpInfo b s)
          = take (lineIndex s) ?Ls' @ [f (take (charIndex s) (?Ls ! lineIndex s))]"
        by (simp add: tl F2)
      with x show ?thesis by auto
    next
      assume "lineIndex s = 2 \<and> terminalLines s = take 2 ?Ls @ [?Ls ! 2]"
      then have "lineIndex s = 2" "terminalLines (applyIpInfo b s) = take 2 ?Ls' @ [f (?Ls ! 2)]"
        by (simp_all add: tl F2)
      with F1[of 2] show ?thesis by simp
    qed
    with False st li show ?thesis
      unfolding TInv_def fields by simp
  qed
qed

lemma countdownEffect_tview: "tview (countdownEffect s s1) = tview s1"
  by (cases "countdownTimer s1")
     (simp_all add: tview_def countdownEffect_def Let_def setTimeout_def clearTimeout_def)

lemma interval_tview: "isIntervalCb cb \<Longrightarrow> tview (runCallback e cb s) = tview s"
  by (cases cb) (simp_all add: isIntervalCb_def tview_def clearInterval_def clearTimeout_def)

lemma clearTimeout_tview [simp]: "tview (clearTimeout h s) = tview s"
  by (simp add: tview_def clearTimeout_def)

lemma Inv_crash_exit: "Inv s \<Longrightarrow> showBSOD s \<Longrightarrow> isExitSequenceActive s"
  by (simp add: Inv_def)

lemma TInv_step:
  assumes u: "unmarked e" and inv: "Inv s" and t: "TInv e s" and st: "step e ev s = Some s'"
  shows "TInv e s'"
proof (cases "isInteractive s' \<or> isExitSequenceActive s'")
  case True
  then show ?thesis by (rule TInv_later)
next
  case False
  from step_Some[OF st] obtain s1 where
    live: "mounted s" "\<not> reloaded s" and h: "handle e ev s = Some s1" and s': "s' = countdownEffect s s1"
    by blast
  have tv: "tview s' = tview s1" by (simp add: s' countdownEffect_tview)
  from step_summary[OF inv st] False Inv_crash_exit[OF inv]
  have st0: "\<not> isInteractive s" "\<not> isExitSequenceActive s"
    by (auto simp: flags_def)
  with Inv_crash_exit[OF inv] have nb: "\<not> showBSOD s" by blast
  show ?thesis
  proof (cases ev)
    case (Fire x)
    from handle_Fire[OF h[unfolded Fire]] obtain r cb where
      m: "map_of (timers s) x = Some (r, cb)" and
      s1: "s1 = runCallback e cb (if r then s else clearTimeout x s)"
      by blast
    show ?thesis
    proof (cases "isIntervalCb cb")
      case True
      then have "tview s1 = tview s" by (simp add: s1 interval_tview)
      with tv have "tview s' = tview s" by simp
      from TInv_tview[OF this] t show ?thesis by simp
    next
      case ni: False
      with inv m have r: "\<not> r" by (rule one_shot)
      from m r have m': "map_of (timers s) x = Some (False, cb)" by simp
      show ?thesis
      proof (cases "isExitChain cb")
        case True
        from exit_pending(2)[OF inv m' True] st0 show ?thesis by simp
      next
        case ne: False
        show ?thesis
        proof (cases cb)
          case TypeCharacter
          with m st have "s' = typeCharacter e (clearTimeout x s)"
            using step_typeCharacter[OF inv live, of x r e] Fire by simp
          with TInv_typeCharacter[OF t st0] show ?thesis by simp
        next
          case (CountdownTick c)
          from Inv_tickD[OF inv tcbs_pending[OF m'[unfolded CountdownTick]]] nb
          show ?thesis by simp
        next
          case FocusInput
          with r have "tview s1 = tview s" by (simp add: s1)
          with tv have "tview s' = tview s" by simp
          from TInv_tview[OF this] t show ?thesis by simp
        qed (use ni ne in \<open>simp_all add: isIntervalCb_def isExitChain_def\<close>)
      qed
    qed
  next
    case FetchSettled
    obtain ipInfo where f: "fetchIPInfo (nav e) (net e) 1 = Inr ipInfo"
      using fetchIPInfo_Inr by blast
    with h FetchSettled have s1: "s1 = applyIpInfo ipInfo (s\<lparr>fetchPending := False\<rparr>)"
      by (simp split: if_splits)
    have "tview (s\<lparr>fetchPending := False\<rparr>) = tview s" by (simp add: tview_def)
    from TInv_tview[OF this] t have "TInv e (s\<lparr>fetchPending := False\<rparr>)" by simp
    with u have "TInv e s1" unfolding s1 by (rule TInv_applyIpInfo)
    with TInv_tview[OF tv] show ?thesis by simp
  next
    case (KeyDown k clk)
    with h st0 show ?thesis by (simp add: inputRendered_def split: if_splits)
  next
    case (Change v)
    with h st0 show ?thesis by (simp add: inputRendered_def split: if_splits)
  next
    case RestartClick
    with h nb show ?thesis by (simp split: if_splits)
  next
    case Unmount
    with h have "s1 = unmount s" by simp
    then have "tview s1 = tview s" by (simp add: tview_def unmount_eq)
    with tv have "tview s' = tview s" by simp
    from TInv_tview[OF this] t show ?thesis by simp
  qed
qed

lemma reachable_TInv:
  assumes u: "unmarked e" and r: "reachable e s"
  shows "TInv e s"
  using r
proof (induction rule: reachable.induct)
  case reach_mount
  show ?case by (rule TInv_mount)
next
  case (reach_step s ev s')
  from u reachable_Inv[OF reach_step.hyps(1)] reach_step.IH reach_step.hyps(2)
  show ?case by (rule TInv_step)
qed

subsection \<open>The typing animation runs to its end\<close>

lemma typed_typed [simp]: "typed (typed s ts li ci ls h) ts' li' ci' ls' h' = typed s ts' li' ci' ls' h'"
  by (simp add: typed_def)

lemma map_of_snoc_fresh:
  assumes "\<forall>t \<in> set ts. fst t < (h::nat)"
  shows "map_of (ts @ [(h, v)]) h = Some v"
proof -
  from assms have "h \<notin> fst ` set ts" by auto
  then have "map_of ts h = None" by (simp add: map_of_eq_None_iff)
  then show ?thesis by (simp add: map_add_def)
qed

lemma filter_snoc_fresh:
  assumes "\<forall>t \<in> set ts. fst t < (h::nat)"
  shows "filter (\<lambda>t. fst t \<noteq> h) (ts @ [(h, v)]) = ts"
proof -
  from assms have "\<forall>t \<in> set ts. fst t \<noteq> h" by auto
  then have "filter (\<lambda>t. fst t \<noteq> h) ts = ts" by (rule filter_True)
  then show ?thesis by simp
qed

lemma typed_tick:
  assumes live: "mounted s" "\<not> reloaded s" and fresh: "\<forall>t \<in> set ts. fst t < h"
  shows "step e (Fire h) (typed s ts li ci ls h)
       = Some (typeCharacter e ((typed s ts li ci ls h)\<lparr>timers := ts\<rparr>))"
proof -
  let ?s = "typed s ts li ci ls h"
  have t: "timers ?s = ts @ [(h, False, TypeCharacter)]" by (simp add: typed_def)
  have m: "map_of (timers ?s) h = Some (False, TypeCharacter)"
    unfolding t using fresh by (rule map_of_snoc_fresh)
  have "clearTimeout h ?s = ?s\<lparr>timers := filter (\<lambda>t. fst t \<noteq> h) (ts @ [(h, False, TypeCharacter)])\<rparr>"
    by (simp add: typed_def clearTimeout_def)
  then have c: "clearTimeout h ?s = ?s\<lparr>timers := ts\<rparr>"
    by (simp only: filter_snoc_fresh[OF fresh])
  have "countdownEffect ?s (typeCharacter e (clearTimeout h ?s)) = typeCharacter e (clearTimeout h ?s)"
    by (intro countdownEffect_same) (simp_all add: typeCharacter_keeps)
  with m c live show ?thesis
    by (simp add: step_def) (simp add: typed_def)
qed

lemma typed_tick_char:
  assumes live: "mounted s" "\<not> reloaded s" and fresh: "\<forall>t \<in> set ts. fst t < h"
    and li: "li < 14" and ci: "ci < length (scriptLines e (ipInfoRef s) ! li)"
  shows "step e (Fire h) (typed s ts li ci ls h)
       = Some (typed s ts li (Suc ci)
                (setLast (if ci = 0 then ls @ [''''] else ls) (take (Suc ci) (scriptLines e (ipInfoRef s) ! li)))
                (Suc h))"
  unfolding typed_tick[OF live fresh]
  using li ci
  by (subst typeCharacter_char) (auto simp: typed_def opened_def)

lemma typed_tick_line:
  assumes live: "mounted s" "\<not> reloaded s" and fresh: "\<forall>t \<in> set ts. fst t < h"
    and li: "li < 14" and ci: "\<not> ci < length (scriptLines e (ipInfoRef s) ! li)"
  shows "step e (Fire h) (typed s ts li ci ls h)
       = Some (typed s ts (Suc li) 0 (if ci = 0 then ls @ [''''] else ls) (Suc h))"
  unfolding typed_tick[OF live fresh]
  using li ci
  by (subst typeCharacter_line) (auto simp: typed_def opened_def)

lemma typed_tick_done:
  assumes live: "mounted s" "\<not> reloaded s" and fresh: "\<forall>t \<in> set ts. fst t < h"
  shows "step e (Fire h) (typed s ts 14 ci ls h)
       = Some ((typed s ts 14 ci ls h)\<lparr>isInteractive := True, timers := ts\<rparr>)"
  unfolding typed_tick[OF live fresh]
  by (subst typeCharacter_done) (auto simp: typed_def)

lemma run_fires_split:
  "run e (map Fire [h ..< h + a + b]) s =
     (case run e (map Fire [h ..< h + a]) s of None \<Rightarrow> None
      | Some s' \<Rightarrow> run e (map Fire [h + a ..< h + a + b]) s')"
proof -
  have "[h ..< h + a + b] = [h ..< h + a] @ [h + a ..< h + a + b]"
    by (rule upt_add_eq_append) simp
  then show ?thesis by (simp add: run_append)
qed

lemma run_fire_first:
  "run e (map Fire [h ..< h + Suc n]) s =
     (case step e (Fire h) s of None \<Rightarrow> None | Some s' \<Rightarrow> run e (map Fire [Suc h ..< Suc h + n]) s')"
proof -
  have "[h ..< h + Suc n] = h # [Suc h ..< Suc h + n]"
    using upt_conv_Cons[of h "h + Suc n"] by simp
  then show ?thesis by (simp only: list.map run.simps)
qed

lemma run_typed_rest:
  assumes live: "mounted s" "\<not> reloaded s" and li: "li < 14"
    and L: "L = scriptLines e (ipInfoRef s) ! li"
  shows "0 < ci \<Longrightarrow> ci \<le> length L \<Longrightarrow> n = length L - ci \<Longrightarrow> \<forall>t \<in> set ts. fst t < h \<Longrightarrow>
     run e (map Fire [h ..< h + Suc n]) (typed s ts li ci (X @ [take ci L]) h)
       = Some (typed s ts (Suc li) 0 (X @ [L]) (h + Suc n))"
proof (induction n arbitrary: ci h)
  case 0
  then have full: "\<not> ci < length (scriptLines e (ipInfoRef s) ! li)" and t: "take ci L = L"
    using L by simp_all
  from 0 have nz: "ci \<noteq> 0" by simp
  show ?case
    using typed_tick_line[OF live "0.prems"(4) li full, of "X @ [take ci L]"] nz
    by (simp add: t)
next
  case (Suc n)
  then have c: "ci < length (scriptLines e (ipInfoRef s) ! li)" using L by simp
  from Suc.prems have nz: "ci \<noteq> 0" by simp
  have fr: "\<forall>t \<in> set ts. fst t < Suc h" using Suc.prems(4) by auto
  have st: "step e (Fire h) (typed s ts li ci (X @ [take ci L]) h)
      = Some (typed s ts li (Suc ci) (X @ [take (Suc ci) L]) (Suc h))"
    using typed_tick_char[OF live Suc.prems(4) li c, of "X @ [take ci L]"] nz
    by (simp add: setLast_def L)
  have "run e (map Fire [Suc h ..< Suc h + Suc n]) (typed s ts li (Suc ci) (X @ [take (Suc ci) L]) (Suc h))
      = Some (typed s ts (Suc li) 0 (X @ [L]) (Suc h + Suc n))"
    using Suc.prems by (intro Suc.IH fr) simp_all
  with st show ?case
    by (subst run_fire_first) simp
qed

lemma run_typed_line:
  assumes live: "mounted s" "\<not> reloaded s" and li: "li < 14"
    and L: "L = scriptLines e (ipInfoRef s) ! li" and fresh: "\<forall>t \<in> set ts. fst t < h"
  shows "run e (map Fire [h ..< h + Suc (length L)]) (typed s ts li 0 X h)
       = Some (typed s ts (Suc li) 0 (X @ [L]) (h + Suc (length L)))"
proof (cases "L = []")
  case True
  then have full: "\<not> 0 < length (scriptLines e (ipInfoRef s) ! li)" using L by simp
  show ?thesis
    using typed_tick_line[OF live fresh li full, of X] True
    by simp
next
  case False
  then have c: "0 < length (scriptLines e (ipInfoRef s) ! li)" using L by simp
  have fr: "\<forall>t \<in> set ts. fst t < Suc h" using fresh by auto
  have st: "step e (Fire h) (typed s ts li 0 X h) = Some (typed s ts li (Suc 0) (X @ [take (Suc 0) L]) (Suc h))"
    using typed_tick_char[OF live fresh li c, of X]
    by (simp add: setLast_def L)
  obtain n where n: "length L = Suc n" using False by (cases L) auto
  have "run e (map Fire [Suc h ..< Suc h + Suc n]) (typed s ts li (Suc 0) (X @ [take (Suc 0) L]) (Suc h))
      = Some (typed s ts (Suc li) 0 (X @ [L]) (Suc h + Suc n))"
    using n by (intro run_typed_rest[OF live li L] fr) simp_all
  with st n show ?thesis
    by (subst run_fire_first) simp
qed

lemma ticksFrom_step: "k < length ls \<Longrightarrow> ticksFrom ls k = Suc (length (ls ! k)) + ticksFrom ls (Suc k)"
  by (simp add: ticksFrom_def Cons_nth_drop_Suc[symmetric])

lemma ticksFrom_end: "length ls \<le> k \<Longrightarrow> ticksFrom ls k = 0"
  by (simp add: ticksFrom_def)

lemma run_typed_script:
  assumes live: "mounted s" "\<not> reloaded s" and Ls: "Ls = scriptLines e (ipInfoRef s)"
  shows "k \<le> 14 \<Longrightarrow> d = 14 - k \<Longrightarrow> \<forall>t \<in> set ts. fst t < h \<Longrightarrow>
     run e (map Fire [h ..< h + ticksFrom Ls k]) (typed s ts k 0 (take k Ls) h)
       = Some (typed s ts 14 0 Ls (h + ticksFrom Ls k))"
proof (induction d arbitrary: k h)
  case 0
  then have k: "k = 14" by simp
  then show ?case by (simp add: ticksFrom_end Ls)
next
  case (Suc d)
  then have k: "k < 14" by simp
  let ?n = "Suc (length (Ls ! k))"
  have fr: "\<forall>t \<in> set ts. fst t < h + ?n" using Suc.prems(3) by auto
  have t: "ticksFrom Ls k = ?n + ticksFrom Ls (Suc k)"
    using k by (intro ticksFrom_step) (simp add: Ls)
  have nxt: "take k Ls @ [Ls ! k] = take (Suc k) Ls"
    using k by (simp add: take_Suc_conv_app_nth Ls)
  have one: "run e (map Fire [h ..< h + ?n]) (typed s ts k 0 (take k Ls) h)
      = Some (typed s ts (Suc k) 0 (take (Suc k) Ls) (h + ?n))"
    using run_typed_line[OF live k _ Suc.prems(3), of "Ls ! k" e "take k Ls"] nxt
    by (simp add: Ls)
  have rest: "run e (map Fire [h + ?n ..< h + ?n + ticksFrom Ls (Suc k)]) (typed s ts (Suc k) 0 (take (Suc k) Ls) (h + ?n))
      = Some (typed s ts 14 0 Ls (h + ?n + ticksFrom Ls (Suc k)))"
    using Suc.prems k by (intro Suc.IH fr) simp_all
  have "run e (map Fire [h ..< h + ?n + ticksFrom Ls (Suc k)]) (typed s ts k 0 (take k Ls) h)
      = Some (typed s ts 14 0 Ls (h + ?n + ticksFrom Ls (Suc k)))"
    by (subst run_fires_split) (simp only: one rest option.case)
  then show ?case
    unfolding t by (simp only: add.assoc)
qed

lemma mount_eq:
  "mount e =
     initialState\<lparr>terminalLines := [''''], lineIndex := 1, fetchPending := True,
       typeTimer := 2, cursorTimer := 3, inputCursorTimer := 4,
       timers := (1, False, TypeCharacter) # intervalTimers, nextTimerId := 5\<rparr>"
  by (simp add: mount_def typeCharacter_def initialState_def setTimeout_def setInterval_def
      Let_def scriptLines_def intervalTimers_def)

lemma mount_live [simp]: "mounted (mount e)" "\<not> reloaded (mount e)" "ipInfoRef (mount e) = FALLBACK"
  by (simp_all add: mount_eq initialState_def)

lemma scriptLines_1_nonempty: "0 < length (scriptLines e a ! 1)"
  by (simp add: scriptLines_def)

lemma scriptLines_0 [simp]: "scriptLines e a ! 0 = ''''"
  by (simp add: scriptLines_def)

lemma intervalTimers_fresh: "5 \<le> h \<Longrightarrow> \<forall>t \<in> set intervalTimers. fst t < h"
  by (simp add: intervalTimers_def)

lemma first_tick:
  "step e (Fire 1) (mount e)
     = Some (typed (mount e) intervalTimers 1 1 ['''', take 1 (scriptLines e FALLBACK ! 1)] 5)"
proof -
  have m: "map_of (timers (mount e)) 1 = Some (False, TypeCharacter)"
    by (simp add: mount_eq)
  have c: "clearTimeout 1 (mount e) = (mount e)\<lparr>timers := intervalTimers\<rparr>"
    by (simp add: mount_eq clearTimeout_def intervalTimers_def)
  have k: "countdownEffect (mount e) (typeCharacter e (clearTimeout 1 (mount e)))
      = typeCharacter e (clearTimeout 1 (mount e))"
    by (intro countdownEffect_same) (simp_all add: typeCharacter_keeps)
  have t: "typeCharacter e ((mount e)\<lparr>timers := intervalTimers\<rparr>)
      = typed (mount e) intervalTimers 1 1 ['''', take 1 (scriptLines e FALLBACK ! 1)] 5"
    using scriptLines_1_nonempty[of e FALLBACK]
    by (subst typeCharacter_char)
       (simp_all add: mount_eq initialState_def typed_def opened_def setLast_def)
  from m c k t show ?thesis by (simp add: step_def)
qed

lemma run_typing: "run e (typingEvents e) (mount e) = Some (typedAll e)"
proof -
  let ?Ls = "scriptLines e FALLBACK"
  let ?L = "?Ls ! 1"
  obtain n where n: "length ?L = Suc n"
    using scriptLines_1_nonempty[of e FALLBACK] by (cases "length ?L") auto
  have fr: "\<forall>t \<in> set intervalTimers. fst t < 5" "\<forall>t \<in> set intervalTimers. fst t < 5 + Suc n"
    by (simp_all add: intervalTimers_fresh)
  have line1: "run e (map Fire [5 ..< 5 + Suc n]) (typed (mount e) intervalTimers 1 1 ([''''] @ [take 1 ?L]) 5)
      = Some (typed (mount e) intervalTimers (Suc 1) 0 ([''''] @ [?L]) (5 + Suc n))"
    using n by (intro run_typed_rest fr) simp_all
  have t2: "take (Suc 1) ?Ls = [''''] @ [?L]"
    by (simp add: scriptLines_def)
  have rest: "run e (map Fire [5 + Suc n ..< 5 + Suc n + ticksFrom ?Ls (Suc 1)])
        (typed (mount e) intervalTimers (Suc 1) 0 (take (Suc 1) ?Ls) (5 + Suc n))
      = Some (typed (mount e) intervalTimers 14 0 ?Ls (5 + Suc n + ticksFrom ?Ls (Suc 1)))"
    by (rule run_typed_script[where d = 12]) (simp_all add: intervalTimers_def)
  have "run e (map Fire [5 ..< 5 + Suc n + ticksFrom ?Ls (Suc 1)])
        (typed (mount e) intervalTimers 1 1 ([''''] @ [take 1 ?L]) 5)
      = Some (typed (mount e) intervalTimers 14 0 ?Ls (5 + Suc n + ticksFrom ?Ls (Suc 1)))"
    by (subst run_fires_split) (simp only: line1 rest t2[symmetric] option.case)
  then have "run e (map Fire [5 ..< 5 + typingTicks e])
        (typed (mount e) intervalTimers 1 1 ['''', take 1 ?L] 5) = Some (typedAll e)"
    by (simp only: typingTicks_def typedAll_def n add.assoc append_Cons append_Nil Suc_1)
  then show ?thesis
    by (simp only: typingEvents_def run.simps first_tick option.case)
qed

lemma last_tick:
  "step e (Fire (5 + typingTicks e)) (typedAll e) = Some (interactiveState e)"
  unfolding typedAll_def interactiveState_def
  by (intro typed_tick_done intervalTimers_fresh) simp_all

lemma reachable_typedAll: "reachable e (typedAll e)"
  using reach_mount run_typing by (rule run_reachable)

lemma reachable_interactive: "reachable e (interactiveState e)"
  using reachable_typedAll last_tick by (rule reach_step)

section \<open>The fetched IP information in the terminal\<close>

lemma step_fetch:
  assumes "mounted s" and "\<not> reloaded s" and "fetchPending s"
    and "fetchIPInfo (nav e) (net e) 1 = Inr ipInfo"
  shows "step e FetchSettled s = Some (applyIpInfo ipInfo (s\<lparr>fetchPending := False\<rparr>))"
proof -
  let ?s = "applyIpInfo ipInfo (s\<lparr>fetchPending := False\<rparr>)"
  have "countdownEffect s ?s = ?s"
    by (intro countdownEffect_same) (simp_all add: applyIpInfo_def)
  with assms show ?thesis by (simp add: step_def)
qed

lemma typedAll_fields:
  "mounted (typedAll e)" "\<not> reloaded (typedAll e)" "fetchPending (typedAll e)"
  "\<not> isInteractive (typedAll e)" "\<not> isExitSequenceActive (typedAll e)"
  "lineIndex (typedAll e) = 14" "charIndex (typedAll e) = 0"
  "ipInfoRef (typedAll e) = FALLBACK"
  "terminalLines (typedAll e) = scriptLines e FALLBACK"
  "timers (typedAll e) = intervalTimers @ [(5 + typingTicks e, False, TypeCharacter)]"
  by (simp_all add: typedAll_def typed_def mount_eq initialState_def)

lemma run_lateFetch:
  assumes "fetchIPInfo (nav e) (net e) 1 = Inr ipInfo"
  shows "run e (lateFetchEvents e) (mount e) = Some (lateFetchState e ipInfo)"
proof -
  let ?h = "5 + typingTicks e"
  let ?s = "applyIpInfo ipInfo ((typedAll e)\<lparr>fetchPending := False\<rparr>)"
  have f: "step e FetchSettled (typedAll e) = Some ?s"
    using assms by (intro step_fetch) (simp_all add: typedAll_fields)
  have "?s = typed ((mount e)\<lparr>fetchPending := False, ipInfoRef := ipInfo\<rparr>) intervalTimers 14 0
      (map (\<lambda>line. if includesStr line MARKER then traceLine ipInfo else line) (scriptLines e FALLBACK)) ?h"
    by (simp add: applyIpInfo_def typedAll_def typed_def)
  moreover have "step e (Fire ?h) (typed ((mount e)\<lparr>fetchPending := False, ipInfoRef := ipInfo\<rparr>) intervalTimers 14 0
      (map (\<lambda>line. if includesStr line MARKER then traceLine ipInfo else line) (scriptLines e FALLBACK)) ?h)
    = Some ((typed ((mount e)\<lparr>fetchPending := False, ipInfoRef := ipInfo\<rparr>) intervalTimers 14 0
      (map (\<lambda>line. if includesStr line MARKER then traceLine ipInfo else line) (scriptLines e FALLBACK)) ?h)
        \<lparr>isInteractive := True, timers := intervalTimers\<rparr>)"
    by (intro typed_tick_done intervalTimers_fresh) simp_all
  ultimately have t: "step e (Fire ?h) ?s = Some (lateFetchState e ipInfo)"
    by (simp add: lateFetchState_def)
  show ?thesis
    unfolding lateFetchEvents_def
    by (simp add: run_append run_typing f t)
qed

lemma fetch_good: "fetchIPInfo (nav envMarked) (net envMarked) 1 = Inr ipGood"
  "fetchIPInfo (nav env0) (net env0) 1 = Inr ipGood"
proof -
  have nb: "\<not> isLikelyBlocked (nav envMarked)" "\<not> isLikelyBlocked (nav env0)"
    by (simp_all add: isLikelyBlocked_def envMarked_def env0_def nav_plain_def includesStr_def) code_simp+
  then show "fetchIPInfo (nav envMarked) (net envMarked) 1 = Inr ipGood"
    "fetchIPInfo (nav env0) (net env0) 1 = Inr ipGood"
    by (simp_all add: fetchIPInfo_def fetch_loop.simps envMarked_def env0_def net_good_def
        response_ok_def formatIp_def ipGood_def)
qed

lemma lateFetch_fields:
  "isInteractive (lateFetchState e b)" "lineIndex (lateFetchState e b) = 14"
  "ipInfoRef (lateFetchState e b) = b"
  "terminalLines (lateFetchState e b)
     = map (\<lambda>line. if includesStr line MARKER then traceLine b else line) (scriptLines e FALLBACK)"
  by (simp_all add: lateFetchState_def applyIpInfo_def typedAll_fields)

lemma marked_line: "includesStr (scriptLines envMarked FALLBACK ! 8) MARKER"
  unfolding includesStr_def
  by (simp add: scriptLines_def userAgent_def envMarked_def env0_def nav_plain_def MARKER_def) code_simp

text \<open>
  Claim C3, as stated, fails: with a user agent that contains \<^verbatim>\<open>network_trace:\<close>, a fetch
  that settles after the script has been typed rewrites the \<^verbatim>\<open>user_agent\<close> line, and
  the terminal differs from the script when \<^verbatim>\<open>isInteractive\<close> is set.
\<close>

theorem typing_script_counterexample:
  "run envMarked (lateFetchEvents envMarked) (mount envMarked) = Some (lateFetchState envMarked ipGood) \<and>
   isInteractive (lateFetchState envMarked ipGood) \<and>
   lineIndex (lateFetchState envMarked ipGood) = length (scriptLines envMarked ipGood) \<and>
   terminalLines (lateFetchState envMarked ipGood)
     \<noteq> scriptLines envMarked (ipInfoRef (lateFetchState envMarked ipGood))"
proof -
  have r: "run envMarked (lateFetchEvents envMarked) (mount envMarked) = Some (lateFetchState envMarked ipGood)"
    using fetch_good(1) by (rule run_lateFetch)
  have "terminalLines (lateFetchState envMarked ipGood) ! 8 = traceLine ipGood"
    using marked_line by (simp add: lateFetch_fields)
  moreover have "scriptLines envMarked ipGood ! 8 \<noteq> traceLine ipGood"
    by (simp add: scriptLines_def traceLine_def)
  ultimately have "terminalLines (lateFetchState envMarked ipGood) \<noteq> scriptLines envMarked ipGood"
    by metis
  with r show ?thesis by (simp add: lateFetch_fields)
qed

text \<open>
  Claim C3, amended. Provided that no scripted line other than the \<^verbatim>\<open>network_trace\<close>
  line contains \<^verbatim>\<open>network_trace:\<close>: in every reachable state of the typing stage in
  which the line index has reached the end of the script, the terminal equals the script
  built from the current \<^verbatim>\<open>ipInfoRef\<close>, line by line, and the pending call of
  \<^verbatim>\<open>typeCharacter\<close> then sets \<^verbatim>\<open>isInteractive\<close> and leaves the terminal as it is.
\<close>

theorem typing_script_complete:
  assumes "unmarked e" and "reachable e s"
    and "\<not> isInteractive s" and "\<not> isExitSequenceActive s"
    and "length (scriptLines e (ipInfoRef s)) \<le> lineIndex s"
  shows "terminalLines s = scriptLines e (ipInfoRef s) \<and>
         (\<forall>h r. mounted s \<and> \<not> reloaded s \<and> map_of (timers s) h = Some (r, TypeCharacter) \<longrightarrow>
            (\<exists>s'. step e (Fire h) s = Some s' \<and> isInteractive s' \<and>
               terminalLines s' = scriptLines e (ipInfoRef s')))"
proof -
  have t: "TInv e s" using assms(1,2) by (rule reachable_TInv)
  have inv: "Inv s" using assms(2) by (rule reachable_Inv)
  from t assms(3-5) have li: "lineIndex s = 14" and ci: "charIndex s = 0"
    by (auto simp: TInv_def split: if_splits)
  with t assms(3,4) have tl: "terminalLines s = scriptLines e (ipInfoRef s)"
    by (simp add: TInv_def)
  have "\<exists>s'. step e (Fire h) s = Some s' \<and> isInteractive s' \<and>
               terminalLines s' = scriptLines e (ipInfoRef s')"
    if "mounted s \<and> \<not> reloaded s \<and> map_of (timers s) h = Some (r, TypeCharacter)" for h r
  proof -
    from that have "step e (Fire h) s = Some (typeCharacter e (clearTimeout h s))"
      using step_typeCharacter[OF inv] by blast
    moreover have "typeCharacter e (clearTimeout h s) = (clearTimeout h s)\<lparr>isInteractive := True\<rparr>"
      using li by (intro typeCharacter_done) (simp add: clearTimeout_def)
    ultimately show ?thesis using tl by (simp add: clearTimeout_def)
  qed
  with tl show ?thesis by blast
qed

lemma unmarked_env0: "unmarked env0"
  unfolding unmarked_def otherLines_def includesStr_def
  by (simp add: scriptLines_def userAgent_def fingerprint_def screenRes_def viewport_def
      env0_def nav_plain_def MARKER_def) code_simp

theorem typing_script_complete_witness:
  "unmarked env0 \<and> reachable env0 (typedAll env0) \<and>
   \<not> isInteractive (typedAll env0) \<and> \<not> isExitSequenceActive (typedAll env0) \<and>
   length (scriptLines env0 (ipInfoRef (typedAll env0))) \<le> lineIndex (typedAll env0) \<and>
   terminalLines (typedAll env0) = scriptLines env0 FALLBACK \<and>
   mounted (typedAll env0) \<and> \<not> reloaded (typedAll env0) \<and>
   map_of (timers (typedAll env0)) (5 + typingTicks env0) = Some (False, TypeCharacter) \<and>
   step env0 (Fire (5 + typingTicks env0)) (typedAll env0) = Some (interactiveState env0) \<and>
   isInteractive (interactiveState env0) \<and>
   terminalLines (interactiveState env0) = scriptLines env0 FALLBACK"
proof -
  have m: "map_of (timers (typedAll env0)) (5 + typingTicks env0) = Some (False, TypeCharacter)"
    unfolding typedAll_fields by (intro map_of_snoc_fresh intervalTimers_fresh) simp
  have i: "isInteractive (interactiveState env0)"
      "terminalLines (interactiveState env0) = scriptLines env0 FALLBACK"
    by (simp_all add: interactiveState_def typedAll_fields)
  from typing_script_complete[OF unmarked_env0 reachable_typedAll]
    unmarked_env0 reachable_typedAll[of env0] m last_tick[of env0] i
  show ?thesis by (simp add: typedAll_fields)
qed

text \<open>
  Claim C5. When the promise of \<^verbatim>\<open>fetchIPInfo(1)\<close> settles, the terminal keeps its
  length; a line that contains \<^verbatim>\<open>network_trace:\<close> becomes the trace line built from
  the fetched string and every other line stays as it is; of the rest of the state only
  \<^verbatim>\<open>ipInfoRef\<close> (and the fact that the fetch is pending) changes.
\<close>

theorem fetch_rewrites_trace_lines_only:
  assumes "step e FetchSettled s = Some s'"
  shows \<open>\<exists>ipInfo. fetchIPInfo (nav e) (net e) 1 = Inr ipInfo \<and> ipInfoRef s' = ipInfo \<and>
           length (terminalLines s') = length (terminalLines s) \<and>
           (\<forall>i < length (terminalLines s).
              (includesStr (terminalLines s ! i) MARKER \<longrightarrow>
                 terminalLines s' ! i =
                   ''<span class="text-yellow-400">network_trace:</span> <span class="text-white">''
                     @ ipInfo @ ''</span>'') \<and>
              (\<not> includesStr (terminalLines s ! i) MARKER \<longrightarrow> terminalLines s' ! i = terminalLines s ! i)) \<and>
           s'\<lparr>terminalLines := terminalLines s, ipInfoRef := ipInfoRef s, fetchPending := fetchPending s\<rparr> = s\<close>
proof -
  obtain ipInfo where f: "fetchIPInfo (nav e) (net e) 1 = Inr ipInfo"
    using fetchIPInfo_Inr by blast
  from step_Some[OF assms] obtain s1 where
    live: "mounted s" "\<not> reloaded s" and h: "handle e FetchSettled s = Some s1"
    and s': "s' = countdownEffect s s1"
    by blast
  from h have p: "fetchPending s" by (simp split: if_splits)
  from step_fetch[OF live p f] assms have "s' = applyIpInfo ipInfo (s\<lparr>fetchPending := False\<rparr>)"
    by simp
  then show ?thesis
    using f by (intro exI[of _ ipInfo]) (simp add: applyIpInfo_def traceLine_def)
qed

theorem fetch_rewrites_trace_lines_only_witness:
  \<open>step env0 FetchSettled traceShown = Some (applyIpInfo ipGood (traceShown\<lparr>fetchPending := False\<rparr>)) \<and>
   fetchIPInfo (nav env0) (net env0) 1 = Inr ''203.0.113.7 | Paris, IDF | ISP: ExampleNet'' \<and>
   terminalLines traceShown =
     [''$ ls'',
      ''<span class="text-yellow-400">network_trace:</span> <span class="text-white">IP_MASKED | LOCATION_ENCRYPTED | NETWORK_SECURED</span>'',
      ''''] \<and>
   terminalLines (applyIpInfo ipGood (traceShown\<lparr>fetchPending := False\<rparr>)) =
     [''$ ls'',
      ''<span class="text-yellow-400">network_trace:</span> <span class="text-white">203.0.113.7 | Paris, IDF | ISP: ExampleNet</span>'',
      ''''] \<and>
   ipInfoRef (applyIpInfo ipGood (traceShown\<lparr>fetchPending := False\<rparr>))
     = ''203.0.113.7 | Paris, IDF | ISP: ExampleNet''\<close>
proof -
  let ?s' = "applyIpInfo ipGood (traceShown\<lparr>fetchPending := False\<rparr>)"
  have s: "step env0 FetchSettled traceShown = Some ?s'"
    by (intro step_fetch fetch_good) (simp_all add: traceShown_def mount_eq initialState_def)
  have t: \<open>terminalLines traceShown =
     [''$ ls'',
      ''<span class="text-yellow-400">network_trace:</span> <span class="text-white">IP_MASKED | LOCATION_ENCRYPTED | NETWORK_SECURED</span>'',
      '''']\<close>
    by (simp add: traceShown_def traceLine_def FALLBACK_def)
  have n: "\<not> includesStr (terminalLines traceShown ! 0) MARKER"
      "includesStr (terminalLines traceShown ! 1) MARKER"
      "\<not> includesStr (terminalLines traceShown ! 2) MARKER"
    unfolding t includesStr_def MARKER_def by code_simp+
  from fetch_rewrites_trace_lines_only[OF s] fetch_good(2)
  have r: "ipInfoRef ?s' = ipGood" "length (terminalLines ?s') = length (terminalLines traceShown)"
      \<open>\<forall>i < length (terminalLines traceShown).
         (includesStr (terminalLines traceShown ! i) MARKER \<longrightarrow>
            terminalLines ?s' ! i =
              ''<span class="text-yellow-400">network_trace:</span> <span class="text-white">''
                @ ipGood @ ''</span>'') \<and>
         (\<not> includesStr (terminalLines traceShown ! i) MARKER \<longrightarrow>
            terminalLines ?s' ! i = terminalLines traceShown ! i)\<close>
    by auto
  have l: "length (terminalLines ?s') = 3" using r(2) by (simp add: t)
  from r(3) n have e: "terminalLines ?s' ! 0 = terminalLines traceShown ! 0"
      \<open>terminalLines ?s' ! 1 =
         ''<span class="text-yellow-400">network_trace:</span> <span class="text-white">''
           @ ipGood @ ''</span>''\<close>
      "terminalLines ?s' ! 2 = terminalLines traceShown ! 2"
    by (simp_all add: t)
  have "terminalLines ?s' = [terminalLines ?s' ! 0, terminalLines ?s' ! 1, terminalLines ?s' ! 2]"
    using l by (auto simp: length_Suc_conv numeral_3_eq_3 numeral_2_eq_2)
  then have \<open>terminalLines ?s' =
     [''$ ls'',
      ''<span class="text-yellow-400">network_trace:</span> <span class="text-white">203.0.113.7 | Paris, IDF | ISP: ExampleNet</span>'',
      '''']\<close>
    unfolding e by (simp add: t ipGood_def)
  with s t r(1) fetch_good(2) show ?thesis by (simp add: ipGood_def)
qed

text \<open>
  Claim C10. In every reachable state \<^verbatim>\<open>historyIndex\<close> lies between -1 and
  \<^verbatim>\<open>commandHistory.length - 1\<close>, and any sequence of ArrowUp and ArrowDown keys handled
  by \<^verbatim>\<open>handleInputSubmit\<close> keeps it there. ArrowUp does nothing on an empty history,
  starts at the newest entry and stops at index 0; ArrowDown past the newest entry resets
  the index to -1 and clears the input.
\<close>

theorem historyIndex_in_range:
  "(reachable e s \<longrightarrow> historyInRange s) \<and>
   (historyInRange s \<and> set ks \<subseteq> {ArrowUp, ArrowDown} \<longrightarrow>
      historyInRange (fold (handleInputSubmit clk) ks s)) \<and>
   (commandHistory s = [] \<longrightarrow> handleInputSubmit clk ArrowUp s = s) \<and>
   (\<not> isExitSequenceActive s \<and> commandHistory s \<noteq> [] \<longrightarrow>
      historyIndex (handleInputSubmit clk ArrowUp s) =
        (if historyIndex s = - 1 then int (length (commandHistory s)) - 1
         else max 0 (historyIndex s - 1))) \<and>
   (\<not> isExitSequenceActive s \<and> 0 \<le> historyIndex s \<and>
      int (length (commandHistory s)) \<le> historyIndex s + 1 \<longrightarrow>
      historyIndex (handleInputSubmit clk ArrowDown s) = - 1 \<and>
      userInput (handleInputSubmit clk ArrowDown s) = Some '''')"
proof (intro conjI impI)
  assume "reachable e s"
  then have "Inv s" by (rule reachable_Inv)
  then show "historyInRange s" by (simp add: Inv_def)
next
  assume "historyInRange s \<and> set ks \<subseteq> {ArrowUp, ArrowDown}"
  then show "historyInRange (fold (handleInputSubmit clk) ks s)"
    using history_arrows by blast
next
  assume "commandHistory s = []"
  then show "handleInputSubmit clk ArrowUp s = s"
    by (simp add: handleInputSubmit_def)
next
  assume "\<not> isExitSequenceActive s \<and> commandHistory s \<noteq> []"
  then show "historyIndex (handleInputSubmit clk ArrowUp s) =
        (if historyIndex s = - 1 then int (length (commandHistory s)) - 1
         else max 0 (historyIndex s - 1))"
    by (simp add: handleInputSubmit_def Let_def)
next
  assume a: "\<not> isExitSequenceActive s \<and> 0 \<le> historyIndex s \<and>
      int (length (commandHistory s)) \<le> historyIndex s + 1"
  then show "historyIndex (handleInputSubmit clk ArrowDown s) = - 1"
    by (simp add: handleInputSubmit_def Let_def)
  from a show "userInput (handleInputSubmit clk ArrowDown s) = Some ''''"
    by (simp add: handleInputSubmit_def Let_def)
qed

lemma historyState_arrows:
  "map (\<lambda>ks. historyIndex (fold (handleInputSubmit clock0) ks historyState))
     [[ArrowUp], [ArrowUp, ArrowUp], [ArrowUp, ArrowUp, ArrowUp],
      [ArrowUp, ArrowUp, ArrowUp, ArrowDown], [ArrowUp, ArrowUp, ArrowUp, ArrowDown, ArrowDown]]
   = [1, 0, 0, 1, - 1]"
  by (simp add: handleInputSubmit_def historyState_def initialState_def Let_def jsIndex_def)

theorem historyIndex_in_range_witness:
  "reachable env0 (mount env0) \<and> historyInRange (mount env0) \<and>
   historyInRange historyState \<and> set [ArrowUp, ArrowUp, ArrowUp, ArrowDown, ArrowDown] \<subseteq> {ArrowUp, ArrowDown} \<and>
   historyInRange (fold (handleInputSubmit clock0) [ArrowUp, ArrowUp, ArrowUp, ArrowDown, ArrowDown] historyState) \<and>
   historyIndex (fold (handleInputSubmit clock0) [ArrowUp, ArrowUp, ArrowUp] historyState) = 0 \<and>
   historyIndex (fold (handleInputSubmit clock0) [ArrowUp, ArrowUp, ArrowUp, ArrowDown, ArrowDown] historyState) = - 1 \<and>
   commandHistory initialState = [] \<and> handleInputSubmit clock0 ArrowUp initialState = initialState \<and>
   \<not> isExitSequenceActive historyState \<and> commandHistory historyState \<noteq> [] \<and>
   historyIndex (handleInputSubmit clock0 ArrowUp historyState) = 1"
proof -
  have r: "historyInRange historyState"
    by (simp add: historyInRange_def historyState_def initialState_def)
  have k: "set [ArrowUp, ArrowUp, ArrowUp, ArrowDown, ArrowDown] \<subseteq> {ArrowUp, ArrowDown}" by simp
  have f: "\<not> isExitSequenceActive historyState" "commandHistory historyState \<noteq> []"
      "historyIndex historyState = - 1" "commandHistory initialState = []"
    by (simp_all add: historyState_def initialState_def)
  from historyIndex_in_range[of env0 "mount env0" "[ArrowUp, ArrowUp, ArrowUp, ArrowDown, ArrowDown]" clock0]
    historyIndex_in_range[of env0 historyState "[ArrowUp, ArrowUp, ArrowUp, ArrowDown, ArrowDown]" clock0]
    historyIndex_in_range[of env0 initialState "[]" clock0]
    reach_mount[of env0] r k f historyState_arrows
  show ?thesis by (simp add: historyState_def initialState_def)
qed

subsection \<open>The exit sequence runs to its end\<close>

lemma exitTyped_exitTyped [simp]:
  "exitTyped (exitTyped s ts li ci ls h) ts' li' ci' ls' h' = exitTyped s ts' li' ci' ls' h'"
  by (simp add: exitTyped_def)

lemma exit_tick:
  assumes live: "mounted s" "\<not> reloaded s" and fresh: "\<forall>t \<in> set ts. fst t < h"
  shows "step e (Fire h) (exitTyped s ts li ci ls h)
       = Some (typeExitSequence ((exitTyped s ts li ci ls h)\<lparr>timers := ts\<rparr>))"
proof -
  let ?s = "exitTyped s ts li ci ls h"
  have t: "timers ?s = ts @ [(h, False, TypeExitSequence)]" by (simp add: exitTyped_def)
  have m: "map_of (timers ?s) h = Some (False, TypeExitSequence)"
    unfolding t using fresh by (rule map_of_snoc_fresh)
  have "clearTimeout h ?s = ?s\<lparr>timers := filter (\<lambda>t. fst t \<noteq> h) (ts @ [(h, False, TypeExitSequence)])\<rparr>"
    by (simp add: exitTyped_def clearTimeout_def)
  then have c: "clearTimeout h ?s = ?s\<lparr>timers := ts\<rparr>"
    by (simp only: filter_snoc_fresh[OF fresh])
  have "countdownEffect ?s (typeExitSequence (clearTimeout h ?s)) = typeExitSequence (clearTimeout h ?s)"
    by (intro countdownEffect_same) (simp_all add: typeExitSequence_keeps)
  with m c live show ?thesis
    by (simp add: step_def) (simp add: exitTyped_def)
qed

lemma exit_tick_empty:
  assumes live: "mounted s" "\<not> reloaded s" and fresh: "\<forall>t \<in> set ts. fst t < h"
    and li: "li < 30" and em: "exitSequence ! li = ''''"
  shows "step e (Fire h) (exitTyped s ts li ci ls h)
       = Some (exitTyped s ts (Suc li) 0 (ls @ ['''']) (Suc h))"
  unfolding exit_tick[OF live fresh]
  using li em
  by (subst typeExitSequence_empty) (auto simp: exitTyped_def)

lemma exit_tick_char:
  assumes live: "mounted s" "\<not> reloaded s" and fresh: "\<forall>t \<in> set ts. fst t < h"
    and li: "li < 30" and ne: "exitSequence ! li \<noteq> ''''" and ci: "ci < length (exitSequence ! li)"
  shows "step e (Fire h) (exitTyped s ts li ci ls h)
       = Some (exitTyped s ts li (Suc ci)
                (setLast (if ci = 0 then ls @ [''''] else ls) (take (Suc ci) (exitSequence ! li)))
                (Suc h))"
  unfolding exit_tick[OF live fresh]
  using li ne ci
  by (subst typeExitSequence_char) (auto simp: exitTyped_def openedExit_def)

lemma exit_tick_line:
  assumes live: "mounted s" "\<not> reloaded s" and fresh: "\<forall>t \<in> set ts. fst t < h"
    and li: "li < 30" and ne: "exitSequence ! li \<noteq> ''''" and ci: "\<not> ci < length (exitSequence ! li)"
  shows "step e (Fire h) (exitTyped s ts li ci ls h)
       = Some (exitTyped s ts (Suc li) 0 ls (Suc h))"
  unfolding exit_tick[OF live fresh]
  using li ne ci
  by (subst typeExitSequence_line) (auto simp: exitTyped_def)

lemma exit_tick_done:
  assumes live: "mounted s" "\<not> reloaded s" and fresh: "\<forall>t \<in> set ts. fst t < h"
  shows "step e (Fire h) (exitTyped s ts 30 ci ls h)
       = Some ((exitTyped s ts 30 ci ls h)\<lparr>timers := ts @ [(Suc h, False, BsodTimeout)],
                 nextTimerId := Suc (Suc h), exitTimeoutsRef := exitTimeoutsRef s @ [Suc h]\<rparr>)"
  unfolding exit_tick[OF live fresh]
  by (subst typeExitSequence_done) (auto simp: exitTyped_def)

lemma run_exit_rest:
  assumes live: "mounted s" "\<not> reloaded s" and li: "li < 30"
    and L: "L = exitSequence ! li"
  shows "0 < ci \<Longrightarrow> ci \<le> length L \<Longrightarrow> n = length L - ci \<Longrightarrow> \<forall>t \<in> set ts. fst t < h \<Longrightarrow>
     run e (map Fire [h ..< h + Suc n]) (exitTyped s ts li ci (X @ [take ci L]) h)
       = Some (exitTyped s ts (Suc li) 0 (X @ [L]) (h + Suc n))"
proof (induction n arbitrary: ci h)
  case 0
  then have full: "\<not> ci < length (exitSequence ! li)" and t: "take ci L = L"
    and ne: "exitSequence ! li \<noteq> ''''"
    using L by auto
  show ?case
    using exit_tick_line[OF live "0.prems"(4) li ne full, of e "X @ [take ci L]"]
    by (simp add: t)
next
  case (Suc n)
  then have c: "ci < length (exitSequence ! li)" and ne: "exitSequence ! li \<noteq> ''''"
    using L by auto
  from Suc.prems have nz: "ci \<noteq> 0" by simp
  have fr: "\<forall>t \<in> set ts. fst t < Suc h" using Suc.prems(4) by auto
  have st: "step e (Fire h) (exitTyped s ts li ci (X @ [take ci L]) h)
      = Some (exitTyped s ts li (Suc ci) (X @ [take (Suc ci) L]) (Suc h))"
    using exit_tick_char[OF live Suc.prems(4) li ne c, of e "X @ [take ci L]"] nz
    by (simp add: setLast_def L)
  have "run e (map Fire [Suc h ..< Suc h + Suc n]) (exitTyped s ts li (Suc ci) (X @ [take (Suc ci) L]) (Suc h))
      = Some (exitTyped s ts (Suc li) 0 (X @ [L]) (Suc h + Suc n))"
    using Suc.prems by (intro Suc.IH fr) simp_all
  with st show ?case
    by (subst run_fire_first) simp
qed

lemma run_exit_line:
  assumes live: "mounted s" "\<not> reloaded s" and li: "li < 30"
    and L: "L = exitSequence ! li" and fresh: "\<forall>t \<in> set ts. fst t < h"
  shows "run e (map Fire [h ..< h + Suc (length L)]) (exitTyped s ts li 0 X h)
       = Some (exitTyped s ts (Suc li) 0 (X @ [L]) (h + Suc (length L)))"
proof (cases "L = []")
  case True
  then have em: "exitSequence ! li = ''''" using L by simp
  show ?thesis
    using exit_tick_empty[OF live fresh li em, of e 0 X] True
    by simp
next
  case False
  then have c: "0 < length (exitSequence ! li)" and ne: "exitSequence ! li \<noteq> ''''" using L by auto
  have fr: "\<forall>t \<in> set ts. fst t < Suc h" using fresh by auto
  have st: "step e (Fire h) (exitTyped s ts li 0 X h) = Some (exitTyped s ts li (Suc 0) (X @ [take (Suc 0) L]) (Suc h))"
    using exit_tick_char[OF live fresh li ne c, of e X]
    by (simp add: setLast_def L)
  obtain n where n: "length L = Suc n" using False by (cases L) auto
  have "run e (map Fire [Suc h ..< Suc h + Suc n]) (exitTyped s ts li (Suc 0) (X @ [take (Suc 0) L]) (Suc h))
      = Some (exitTyped s ts (Suc li) 0 (X @ [L]) (Suc h + Suc n))"
    using n by (intro run_exit_rest[OF live li L] fr) simp_all
  with st n show ?thesis
    by (subst run_fire_first) simp
qed

lemma run_exit_script:
  assumes live: "mounted s" "\<not> reloaded s"
  shows "k \<le> 30 \<Longrightarrow> d = 30 - k \<Longrightarrow> \<forall>t \<in> set ts. fst t < h \<Longrightarrow>
     run e (map Fire [h ..< h + ticksFrom exitSequence k]) (exitTyped s ts k 0 (X @ take k exitSequence) h)
       = Some (exitTyped s ts 30 0 (X @ exitSequence) (h + ticksFrom exitSequence k))"
proof (induction d arbitrary: k h)
  case 0
  then have k: "k = 30" by simp
  then show ?case by (simp add: ticksFrom_end)
next
  case (Suc d)
  then have k: "k < 30" by simp
  let ?n = "Suc (length (exitSequence ! k))"
  have fr: "\<forall>t \<in> set ts. fst t < h + ?n" using Suc.prems(3) by auto
  have t: "ticksFrom exitSequence k = ?n + ticksFrom exitSequence (Suc k)"
    using k by (intro ticksFrom_step) simp
  have nxt: "(X @ take k exitSequence) @ [exitSequence ! k] = X @ take (Suc k) exitSequence"
    using k by (simp add: take_Suc_conv_app_nth)
  have one: "run e (map Fire [h ..< h + ?n]) (exitTyped s ts k 0 (X @ take k exitSequence) h)
      = Some (exitTyped s ts (Suc k) 0 (X @ take (Suc k) exitSequence) (h + ?n))"
    using run_exit_line[OF live k refl Suc.prems(3), of e "X @ take k exitSequence"]
    by (simp only: nxt)
  have rest: "run e (map Fire [h + ?n ..< h + ?n + ticksFrom exitSequence (Suc k)])
        (exitTyped s ts (Suc k) 0 (X @ take (Suc k) exitSequence) (h + ?n))
      = Some (exitTyped s ts 30 0 (X @ exitSequence) (h + ?n + ticksFrom exitSequence (Suc k)))"
    using Suc.prems k by (intro Suc.IH fr) simp_all
  have "run e (map Fire [h ..< h + ?n + ticksFrom exitSequence (Suc k)]) (exitTyped s ts k 0 (X @ take k exitSequence) h)
      = Some (exitTyped s ts 30 0 (X @ exitSequence) (h + ?n + ticksFrom exitSequence (Suc k)))"
    by (subst run_fires_split) (simp only: one rest option.case)
  then show ?case
    unfolding t by (simp only: add.assoc)
qed

subsection \<open>The crash screen counts down\<close>

lemma filter_other_handle:
  assumes "\<forall>t \<in> set ts. fst t < (h::nat)"
  shows "filter (\<lambda>t. fst t \<noteq> h) ts = ts"
proof -
  from assms have "\<forall>t \<in> set ts. fst t \<noteq> h" by auto
  then show ?thesis by (rule filter_True)
qed

lemma bsod_step:
  assumes live: "mounted s" "\<not> reloaded s" and nb: "\<not> showBSOD s" and nt: "countdownTimer s = None"
    and t: "timers s = ts @ [(h, False, BsodTimeout)]" and n: "nextTimerId s = Suc h"
    and fresh: "\<forall>t \<in> set ts. fst t < h"
  shows "step e (Fire h) s = Some (crashState s ts 7 (Suc h))"
proof -
  have m: "map_of (timers s) h = Some (False, BsodTimeout)"
    unfolding t using fresh by (rule map_of_snoc_fresh)
  have "clearTimeout h s = s\<lparr>timers := filter (\<lambda>t. fst t \<noteq> h) (ts @ [(h, False, BsodTimeout)])\<rparr>"
    by (simp add: clearTimeout_def t)
  then have c: "clearTimeout h s = s\<lparr>timers := ts\<rparr>"
    by (simp only: filter_snoc_fresh[OF fresh])
  let ?s1 = "s\<lparr>timers := ts, showBSOD := True, countdown := 7\<rparr>"
  have "countdownEffect s ?s1 = crashState s ts 7 (Suc h)"
    using nb nt n by (subst countdownEffect_start) (simp_all add: crashState_def)
  with m c live show ?thesis by (simp add: step_def)
qed

lemma crash_tick:
  assumes live: "mounted s" "\<not> reloaded s" and fresh: "\<forall>t \<in> set ts. fst t < h" and c: "1 < c"
  shows "step e (Fire h) (crashState s ts c h) = Some (crashState s ts (c - 1) (Suc h))"
proof -
  let ?s = "crashState s ts c h"
  have t: "timers ?s = ts @ [(h, False, CountdownTick c)]" by (simp add: crashState_def)
  have m: "map_of (timers ?s) h = Some (False, CountdownTick c)"
    unfolding t using fresh by (rule map_of_snoc_fresh)
  have "clearTimeout h ?s = ?s\<lparr>timers := filter (\<lambda>t. fst t \<noteq> h) (ts @ [(h, False, CountdownTick c)])\<rparr>"
    by (simp add: clearTimeout_def crashState_def)
  then have cl: "clearTimeout h ?s = ?s\<lparr>timers := ts\<rparr>"
    by (simp only: filter_snoc_fresh[OF fresh])
  let ?s1 = "?s\<lparr>timers := ts, countdown := c - 1\<rparr>"
  have "countdownEffect ?s ?s1 = crashState s ts (c - 1) (Suc h)"
    using c by (subst countdownEffect_start) (simp_all add: crashState_def filter_other_handle[OF fresh])
  with m cl live show ?thesis by (simp add: step_def) (simp add: crashState_def)
qed

lemma crash_last:
  assumes live: "mounted s" "\<not> reloaded s" and fresh: "\<forall>t \<in> set ts. fst t < h"
  shows "step e (Fire h) (crashState s ts 1 h) = Some (restartState s ts h)"
proof -
  let ?s = "crashState s ts 1 h"
  have t: "timers ?s = ts @ [(h, False, CountdownTick 1)]" by (simp add: crashState_def)
  have m: "map_of (timers ?s) h = Some (False, CountdownTick 1)"
    unfolding t using fresh by (rule map_of_snoc_fresh)
  have "clearTimeout h ?s = ?s\<lparr>timers := filter (\<lambda>t. fst t \<noteq> h) (ts @ [(h, False, CountdownTick 1)])\<rparr>"
    by (simp add: clearTimeout_def crashState_def)
  then have cl: "clearTimeout h ?s = ?s\<lparr>timers := ts\<rparr>"
    by (simp only: filter_snoc_fresh[OF fresh])
  let ?s1 = "?s\<lparr>timers := ts, countdown := 0\<rparr>"
  have "countdownEffect ?s ?s1 = restartState s ts h"
    by (subst countdownEffect_zero) (simp_all add: crashState_def restartState_def filter_other_handle[OF fresh])
  with m cl live show ?thesis by (simp add: step_def) (simp add: crashState_def)
qed

lemma run_ticks:
  assumes live: "mounted s" "\<not> reloaded s"
  shows "\<forall>t \<in> set ts. fst t < h \<Longrightarrow>
     run e (map Fire [h ..< h + n]) (crashState s ts (1 + int n) h) = Some (crashState s ts 1 (h + n))"
proof (induction n arbitrary: h)
  case 0
  then show ?case by simp
next
  case (Suc n)
  have fr: "\<forall>t \<in> set ts. fst t < Suc h" using Suc.prems by auto
  have st: "step e (Fire h) (crashState s ts (1 + int (Suc n)) h) = Some (crashState s ts (1 + int n) (Suc h))"
    using crash_tick[OF live Suc.prems, of "1 + int (Suc n)" e] by simp
  have "run e (map Fire [Suc h ..< Suc h + n]) (crashState s ts (1 + int n) (Suc h))
      = Some (crashState s ts 1 (Suc h + n))"
    using fr by (rule Suc.IH)
  with st show ?case
    by (subst run_fire_first) simp
qed

lemma run_countdown:
  assumes live: "mounted s" "\<not> reloaded s" and fresh: "\<forall>t \<in> set ts. fst t < h"
  shows "run e (map Fire [h ..< h + 6] @ [Fire (h + 6)]) (crashState s ts 7 h) = Some (restartState s ts (h + 6))"
proof -
  have fr: "\<forall>t \<in> set ts. fst t < h + 6" using fresh by auto
  have "run e (map Fire [h ..< h + 6]) (crashState s ts (1 + int 6) h) = Some (crashState s ts 1 (h + 6))"
    using live fresh by (rule run_ticks)
  then have a: "run e (map Fire [h ..< h + 6]) (crashState s ts 7 h) = Some (crashState s ts 1 (h + 6))"
    by simp
  have b: "step e (Fire (h + 6)) (crashState s ts 1 (h + 6)) = Some (restartState s ts (h + 6))"
    using live fr by (rule crash_last)
  show ?thesis
    by (simp only: run_append a b option.case run.simps)
qed

subsection \<open>One whole life of the component\<close>

lemma interactive_fields:
  "mounted (interactiveState e)" "\<not> reloaded (interactiveState e)"
  "isInteractive (interactiveState e)" "\<not> isExitSequenceActive (interactiveState e)"
  "\<not> showBSOD (interactiveState e)" "countdown (interactiveState e) = 7"
  "timers (interactiveState e) = intervalTimers"
  "nextTimerId (interactiveState e) = 6 + typingTicks e"
  "exitTimeoutsRef (interactiveState e) = []" "commandHistory (interactiveState e) = []"
  "countdownTimer (interactiveState e) = None" "exitTriggered (interactiveState e) = []"
  "terminalLines (interactiveState e) = scriptLines e FALLBACK"
  "lineIndex (interactiveState e) = 14"
  by (simp_all add: interactiveState_def typedAll_def typed_def mount_eq initialState_def)

lemma step_change: "step e (Change ''flip'') (interactiveState e) = Some (typedIn e)"
proof -
  have "countdownEffect (interactiveState e) (typedIn e) = typedIn e"
    by (intro countdownEffect_same) (simp_all add: typedIn_def)
  then show ?thesis
    by (simp add: step_def inputRendered_def interactive_fields) (simp add: typedIn_def)
qed

lemma flip_command:
  "trim ''flip'' = ''flip''" "commandBranch (trim (toLowerCase (trim ''flip''))) = Flip"
  by code_simp+

lemma flipState_eq:
  "flipState e clk =
     (typedIn e)\<lparr>terminalLines := [''root@anatole:~$ flip'', '''', ''''],
       commandHistory := [''flip''], historyIndex := - 1, userInput := Some '''',
       isExitSequenceActive := True, isInteractive := False, exitTriggered := [True],
       exitTimeoutsRef := [6 + typingTicks e],
       timers := intervalTimers @ [(6 + typingTicks e, False, ExitInitial), (7 + typingTicks e, False, FocusInput)],
       nextTimerId := 8 + typingTicks e\<rparr>"
proof -
  have a: "\<not> isExitSequenceActive (typedIn e)" "userInput (typedIn e) = Some ''flip''"
    by (simp_all add: typedIn_def interactive_fields)
  have b: "trim ''flip'' \<noteq> ''''" by (simp add: flip_command)
  show ?thesis
    unfolding flipState_def
    by (subst handleInputSubmit_flip[OF a b flip_command(2)])
       (simp add: flip_command typedIn_def interactive_fields)
qed

lemma step_enter: "step e (KeyDown Enter clk) (typedIn e) = Some (flipState e clk)"
proof -
  have "countdownEffect (typedIn e) (handleInputSubmit clk Enter (typedIn e)) = handleInputSubmit clk Enter (typedIn e)"
    by (intro countdownEffect_same) (simp_all add: handleInputSubmit_keeps)
  then show ?thesis
    by (simp add: step_def inputRendered_def typedIn_def interactive_fields flipState_def)
qed

lemma flip_fields:
  "mounted (flipState e clk)" "\<not> reloaded (flipState e clk)"
  "isExitSequenceActive (flipState e clk)" "\<not> isInteractive (flipState e clk)"
  "\<not> showBSOD (flipState e clk)" "countdown (flipState e clk) = 7"
  "countdownTimer (flipState e clk) = None"
  "terminalLines (flipState e clk) = [''root@anatole:~$ flip'', '''', '''']"
  "exitTimeoutsRef (flipState e clk) = [6 + typingTicks e]"
  "nextTimerId (flipState e clk) = 8 + typingTicks e"
  "timers (flipState e clk)
     = intervalTimers @ [(6 + typingTicks e, False, ExitInitial), (7 + typingTicks e, False, FocusInput)]"
  by (simp_all add: flipState_eq typedIn_def interactive_fields)

lemma exitTimers_fresh: "\<forall>t \<in> set (exitTimers e). fst t < 8 + typingTicks e + d"
  by (simp add: exitTimers_def intervalTimers_def)

lemma exitSequence_0: "exitSequence ! 0 \<noteq> ''''" "0 < length (exitSequence ! 0)"
  by (simp_all add: exitSequence_def)

lemma step_exitInitial:
  "step e (Fire (6 + typingTicks e)) (flipState e clk) = Some (exitStart e clk)"
proof -
  let ?s = "flipState e clk"
  have m: "map_of (timers ?s) (6 + typingTicks e) = Some (False, ExitInitial)"
    by (simp add: flip_fields intervalTimers_def)
  have c: "clearTimeout (6 + typingTicks e) ?s = ?s\<lparr>timers := exitTimers e\<rparr>"
    by (simp add: clearTimeout_def flip_fields intervalTimers_def exitTimers_def)
  have r: "runCallback e ExitInitial (?s\<lparr>timers := exitTimers e\<rparr>) = exitStart e clk"
    using exitSequence_0
    by (simp add: typeExitSequence_def length_exitSequence Let_def setTimeout_def setLast_def
        exitStart_def exitTyped_def flip_fields)
  have "countdownEffect ?s (exitStart e clk) = exitStart e clk"
    by (intro countdownEffect_same) (simp_all add: exitStart_def exitTyped_def)
  with m c r show ?thesis
    by (simp add: step_def flip_fields)
qed

lemma run_exit_all:
  "run e (map Fire [8 + typingTicks e ..< 8 + typingTicks e + exitTicks]) (exitStart e clk)
     = Some (exitTypedAll e clk)"
proof -
  let ?s = "flipState e clk" and ?h = "8 + typingTicks e" and ?L = "exitSequence ! 0"
  let ?X = "terminalLines (flipState e clk)"
  obtain n where n: "length ?L = Suc n" using exitSequence_0(2) by (cases ?L) auto
  have live: "mounted ?s" "\<not> reloaded ?s" by (simp_all add: flip_fields)
  have a: "run e (map Fire [?h ..< ?h + Suc n]) (exitTyped ?s (exitTimers e) 0 1 (?X @ [take 1 ?L]) ?h)
      = Some (exitTyped ?s (exitTimers e) (Suc 0) 0 (?X @ [?L]) (?h + Suc n))"
    using n exitTimers_fresh[of e 0] by (intro run_exit_rest[OF live]) simp_all
  have t: "take (Suc 0) exitSequence = [?L]"
    by (simp add: exitSequence_def)
  have b: "run e (map Fire [?h + Suc n ..< ?h + Suc n + ticksFrom exitSequence (Suc 0)])
             (exitTyped ?s (exitTimers e) (Suc 0) 0 (?X @ take (Suc 0) exitSequence) (?h + Suc n))
      = Some (exitTyped ?s (exitTimers e) 30 0 (?X @ exitSequence) (?h + Suc n + ticksFrom exitSequence (Suc 0)))"
    using exitTimers_fresh[of e "Suc n"] by (intro run_exit_script[OF live, where d = 29]) simp_all
  have "run e (map Fire [?h ..< ?h + Suc n + ticksFrom exitSequence (Suc 0)])
          (exitTyped ?s (exitTimers e) 0 1 (?X @ [take 1 ?L]) ?h)
      = Some (exitTyped ?s (exitTimers e) 30 0 (?X @ exitSequence) (?h + Suc n + ticksFrom exitSequence (Suc 0)))"
    using a b unfolding t by (simp only: run_fires_split option.case)
  then show ?thesis
    unfolding exitStart_def exitTypedAll_def exitTicks_def n by (simp add: add.assoc)
qed

lemma step_exit_done:
  "step e (Fire (8 + typingTicks e + exitTicks)) (exitTypedAll e clk) = Some (bsodPending e clk)"
  unfolding exitTypedAll_def bsodPending_def
  using exitTimers_fresh[of e exitTicks]
  by (intro exit_tick_done) (simp_all add: flip_fields)

lemma bsodPending_fields:
  "mounted (bsodPending e clk)" "\<not> reloaded (bsodPending e clk)"
  "\<not> showBSOD (bsodPending e clk)" "countdownTimer (bsodPending e clk) = None"
  "isExitSequenceActive (bsodPending e clk)" "\<not> isInteractive (bsodPending e clk)"
  "countdown (bsodPending e clk) = 7"
  "timers (bsodPending e clk) = exitTimers e @ [(Suc (8 + typingTicks e + exitTicks), False, BsodTimeout)]"
  "nextTimerId (bsodPending e clk) = Suc (Suc (8 + typingTicks e + exitTicks))"
  by (simp_all add: bsodPending_def exitTypedAll_def exitTyped_def flip_fields)

lemma step_bsod:
  "step e (Fire (Suc (8 + typingTicks e + exitTicks))) (bsodPending e clk) = Some (crashed e clk)"
  unfolding crashed_def
  using exitTimers_fresh[of e "Suc exitTicks"]
  by (intro bsod_step) (simp_all add: bsodPending_fields)

lemma run_crash_countdown: "run e (countdownEvents e) (crashed e clk) = Some (restartShown e clk)"
  unfolding crashed_def restartShown_def countdownEvents_def
  using exitTimers_fresh[of e "Suc (Suc exitTicks)"]
  by (intro run_countdown) (simp_all add: bsodPending_fields)

lemma restartShown_fields:
  "mounted (restartShown e clk)" "\<not> reloaded (restartShown e clk)"
  "showBSOD (restartShown e clk)" "showRestartButton (restartShown e clk)"
  "countdown (restartShown e clk) = 0" "countdownTimer (restartShown e clk) = None"
  by (simp_all add: restartShown_def restartState_def bsodPending_fields)

lemma step_restart: "step e RestartClick (restartShown e clk) = Some (reloadedState e clk)"
proof -
  have "countdownEffect (restartShown e clk) (reloadedState e clk) = reloadedState e clk"
    by (intro countdownEffect_same) (simp_all add: reloadedState_def)
  then show ?thesis
    by (simp add: step_def restartShown_fields) (simp add: reloadedState_def)
qed

lemma reachable_typedIn: "reachable e (typedIn e)"
  using reachable_interactive step_change by (rule reach_step)

lemma reachable_flip: "reachable e (flipState e clk)"
  using reachable_typedIn step_enter by (rule reach_step)

lemma reachable_exitStart: "reachable e (exitStart e clk)"
  using reachable_flip step_exitInitial by (rule reach_step)

lemma reachable_exitTypedAll: "reachable e (exitTypedAll e clk)"
  using reachable_exitStart run_exit_all by (rule run_reachable)

lemma reachable_bsodPending: "reachable e (bsodPending e clk)"
  using reachable_exitTypedAll step_exit_done by (rule reach_step)

lemma reachable_crashed: "reachable e (crashed e clk)"
  using reachable_bsodPending step_bsod by (rule reach_step)

lemma reachable_restartShown: "reachable e (restartShown e clk)"
  using reachable_crashed run_crash_countdown by (rule run_reachable)

lemma reachable_reloaded: "reachable e (reloadedState e clk)"
  using reachable_restartShown step_restart by (rule reach_step)

subsection \<open>The typed text\<close>

lemma exitInitial_prefix:
  assumes re: "reachable e s" and live: "mounted s" "\<not> reloaded s"
    and m: "map_of (timers s) h = Some (r, ExitInitial)"
  shows "\<exists>s'. step e (Fire h) s = Some s' \<and> terminalLines s' \<noteq> [] \<and>
           last (terminalLines s') = take (Suc 0) (exitSequence ! 0) \<and>
           exitCharIndex s' = Suc 0 \<and> exitLineIndex s' = 0"
proof -
  have inv: "Inv s" using re by (rule reachable_Inv)
  let ?s = "(clearTimeout h s)\<lparr>exitLineIndex := 0, exitCharIndex := 0\<rparr>"
  have r: "\<not> r" using inv m by (rule one_shot) (simp add: isIntervalCb_def)
  have c: "exitLineIndex ?s < 30" "exitSequence ! exitLineIndex ?s \<noteq> ''''"
      "exitCharIndex ?s < length (exitSequence ! exitLineIndex ?s)"
    using exitSequence_0 by simp_all
  have ne: "openedExit ?s \<noteq> []" by (simp add: openedExit_def)
  have "countdownEffect s (typeExitSequence ?s) = typeExitSequence ?s"
    by (intro countdownEffect_same) (simp_all add: typeExitSequence_keeps clearTimeout_def)
  then have st: "step e (Fire h) s = Some (typeExitSequence ?s)"
    using live m r by (simp add: step_def)
  show ?thesis
    unfolding st typeExitSequence_char[OF c]
    using ne by (simp add: last_setLast)
qed


lemma exitStart_fields:
  "mounted (exitStart e clk)" "\<not> reloaded (exitStart e clk)"
  "exitLineIndex (exitStart e clk) = 0" "exitCharIndex (exitStart e clk) = 1"
  "timers (exitStart e clk) = exitTimers e @ [(8 + typingTicks e, False, TypeExitSequence)]"
  "typeTimer (exitStart e clk) = 2" "cursorTimer (exitStart e clk) = 3"
  "inputCursorTimer (exitStart e clk) = 4" "countdownTimer (exitStart e clk) = None"
  "exitTimeoutsRef (exitStart e clk) = [6 + typingTicks e]"
  by (simp_all add: exitStart_def exitTyped_def flipState_eq typedIn_def interactiveState_def
      typedAll_def typed_def mount_eq initialState_def)

lemma exitStart_pending:
  "map_of (timers (exitStart e clk)) (8 + typingTicks e) = Some (False, TypeExitSequence)"
  unfolding exitStart_fields using exitTimers_fresh[of e 0]
  by (intro map_of_snoc_fresh) simp

lemma first_lines:
  "take 1 (scriptLines env0 FALLBACK ! 1) = ''<''" "0 < length (scriptLines env0 FALLBACK ! 1)"
  "take 1 (exitSequence ! 0) = ''<''" "take 2 (exitSequence ! 0) = ''<s''" "1 < length (exitSequence ! 0)"
  by (simp_all add: scriptLines_def exitSequence_def)


subsection \<open>Unmounting\<close>

lemma step_unmount:
  assumes "mounted s" and "\<not> reloaded s"
  shows "step e Unmount s = Some (unmount s)"
proof -
  have "countdownEffect s (unmount s) = unmount s"
    by (intro countdownEffect_same) (simp_all add: unmount_eq)
  with assms show ?thesis by (simp add: step_def)
qed

text \<open>
  Claim C4. The cleanup of the main effect clears the three intervals and the timeouts
  whose identifiers were pushed to \<^verbatim>\<open>exitTimeoutsRef\<close>: the initial timeout of
  \<^verbatim>\<open>executeExit\<close> and the crash-screen timeout. The timeouts by which
  \<^verbatim>\<open>typeCharacter\<close> and \<^verbatim>\<open>typeExitSequence\<close> call themselves again are never recorded,
  although \<^verbatim>\<open>clearExitTimeouts\<close> is documented to clear all exit sequence timeouts. So a
  component unmounted right after it was mounted leaves the timeout of
  \<^verbatim>\<open>typeCharacter\<close> pending in the browser's timer table; when its time comes the
  browser runs the callback (\<^term>\<open>handle\<close>), which schedules the next one. A component
  unmounted while the exit sequence is typed leaves the timeout of
  \<^verbatim>\<open>typeExitSequence\<close> pending in the same way.
\<close>

theorem unmount_leaves_timeouts:
  "reachable env0 (unmount (mount env0)) \<and>
   map_of (timers (unmount (mount env0))) 1 = Some (False, TypeCharacter) \<and>
   handle env0 (Fire 1) (unmount (mount env0))
     = Some (typeCharacter env0 (clearTimeout 1 (unmount (mount env0)))) \<and>
   map_of (timers (typeCharacter env0 (clearTimeout 1 (unmount (mount env0))))) 5
     = Some (False, TypeCharacter) \<and>
   reachable env0 (unmount (exitStart env0 clock0)) \<and>
   map_of (timers (unmount (exitStart env0 clock0))) (8 + typingTicks env0)
     = Some (False, TypeExitSequence)"
proof -
  have u: "timers (unmount (mount env0)) = [(1, False, TypeCharacter)]"
    by (simp add: unmount_eq mount_eq initialState_def intervalTimers_def)
  have f: "lineIndex (clearTimeout 1 (unmount (mount env0))) < 14"
      "charIndex (clearTimeout 1 (unmount (mount env0)))
        < length (scriptLines env0 (ipInfoRef (clearTimeout 1 (unmount (mount env0))))
            ! lineIndex (clearTimeout 1 (unmount (mount env0))))"
      "nextTimerId (clearTimeout 1 (unmount (mount env0))) = 5"
      "timers (clearTimeout 1 (unmount (mount env0))) = []"
    using first_lines(2)
    by (simp_all add: clearTimeout_def unmount_eq mount_eq initialState_def intervalTimers_def)
  have t: "map_of (timers (typeCharacter env0 (clearTimeout 1 (unmount (mount env0))))) 5
      = Some (False, TypeCharacter)"
    unfolding typeCharacter_char[OF f(1,2)] using f(3,4) by simp
  have x: "timers (unmount (exitStart env0 clock0))
      = [(7 + typingTicks env0, False, FocusInput), (8 + typingTicks env0, False, TypeExitSequence)]"
    by (simp add: unmount_eq exitStart_fields exitTimers_def intervalTimers_def)
  have r: "reachable env0 (unmount (mount env0))"
    using reach_mount step_unmount[OF mount_live(1,2)] by (rule reach_step)
  have r': "reachable env0 (unmount (exitStart env0 clock0))"
    using reachable_exitStart step_unmount[OF exitStart_fields(1,2)] by (rule reach_step)
  show ?thesis
    using t r r' by (simp add: u x)
qed

subsection \<open>The order of the stages\<close>

lemma flags_simps:
  "flags s' = (i, x, b, r, c) \<longleftrightarrow>
     isInteractive s' = i \<and> isExitSequenceActive s' = x \<and> showBSOD s' = b \<and> reloaded s' = r \<and> countdown s' = c"
  by (auto simp: flags_def)

lemma flags_eq:
  "flags s' = flags s \<longleftrightarrow>
     isInteractive s' = isInteractive s \<and> isExitSequenceActive s' = isExitSequenceActive s \<and>
     showBSOD s' = showBSOD s \<and> reloaded s' = reloaded s \<and> countdown s' = countdown s"
  by (auto simp: flags_def)

lemma typed_lines:
  assumes "Inv s" and "\<not> isInteractive s" and "\<not> isExitSequenceActive s"
  shows "lineIndex s \<le> length (terminalLines s)"
  using assms by (simp add: Inv_def)

lemma crash_after_exit:
  assumes "Inv s" and "map_of (timers s) h = Some (r, BsodTimeout)"
  shows "length exitSequence \<le> exitLineIndex s"
  using Inv_bsodD[OF assms(1) tcbs_pending[OF assms(2)]] by (simp add: length_exitSequence)

text \<open>
  Claim C2. Along every step of a reachable state the stage (typing 0, interactive 1, exit
  sequence 2, crash screen 3, reload 4) stays or goes up by one. \<^verbatim>\<open>isInteractive\<close>
  becomes true only by the call of \<^verbatim>\<open>typeCharacter\<close> that finds all scripted lines
  typed, when \<^verbatim>\<open>terminalLines\<close> holds at least as many lines as the script.
  \<^verbatim>\<open>executeExit\<close> sets \<^verbatim>\<open>isInteractive\<close> false and \<^verbatim>\<open>isExitSequenceActive\<close> true, and
  only a key event starts the exit sequence. While \<^verbatim>\<open>isExitSequenceActive\<close> holds,
  \<^verbatim>\<open>handleInputSubmit\<close> leaves the state as it is, whatever the key. \<^verbatim>\<open>showBSOD\<close>
  becomes true only by the timeout that \<^verbatim>\<open>typeExitSequence\<close> sets once its line index
  has passed the last line of the exit sequence.
\<close>

theorem stage_order:
  assumes "reachable e s" and "step e ev s = Some s'"
  shows "(stage s' = stage s \<or> stage s' = Suc (stage s)) \<and>
         (isInteractive s' \<and> \<not> isInteractive s \<longrightarrow>
            (\<exists>h. ev = Fire h \<and> map_of (timers s) h = Some (False, TypeCharacter)) \<and>
            length (scriptLines e (ipInfoRef s)) \<le> lineIndex s \<and>
            length (scriptLines e (ipInfoRef s)) \<le> length (terminalLines s)) \<and>
         (isExitSequenceActive s' \<and> \<not> isExitSequenceActive s \<longrightarrow>
            (\<exists>k clk. ev = KeyDown k clk) \<and> isInteractive s \<and> \<not> isInteractive s') \<and>
         \<not> isInteractive (executeExit s) \<and> isExitSequenceActive (executeExit s) \<and>
         (isExitSequenceActive s \<longrightarrow> handleInputSubmit clk k s = s) \<and>
         (showBSOD s' \<and> \<not> showBSOD s \<longrightarrow>
            (\<exists>h. ev = Fire h \<and> map_of (timers s) h = Some (False, BsodTimeout)) \<and>
            isExitSequenceActive s \<and> length exitSequence \<le> exitLineIndex s) \<and>
         (reloaded s' \<longrightarrow> ev = RestartClick \<and> showBSOD s)"
proof -
  have inv: "Inv s" using assms(1) by (rule reachable_Inv)
  have nr: "\<not> reloaded s" using step_Some[OF assms(2)] by simp
  note sm = step_summary[OF inv assms(2), unfolded flags_simps flags_eq]
  have 1: "stage s' = stage s \<or> stage s' = Suc (stage s)"
    using assms by (rule stage_step)
  have 2: "isInteractive s' \<and> \<not> isInteractive s \<longrightarrow>
            (\<exists>h. ev = Fire h \<and> map_of (timers s) h = Some (False, TypeCharacter)) \<and>
            length (scriptLines e (ipInfoRef s)) \<le> lineIndex s \<and>
            length (scriptLines e (ipInfoRef s)) \<le> length (terminalLines s)"
  proof
    assume a: "isInteractive s' \<and> \<not> isInteractive s"
    with sm obtain h where h: "ev = Fire h" "map_of (timers s) h = Some (False, TypeCharacter)"
        "\<not> isExitSequenceActive s" "14 \<le> lineIndex s"
      by auto
    from typed_lines[OF inv _ h(3)] a h(4) have "14 \<le> length (terminalLines s)" by simp
    with h show "(\<exists>h. ev = Fire h \<and> map_of (timers s) h = Some (False, TypeCharacter)) \<and>
            length (scriptLines e (ipInfoRef s)) \<le> lineIndex s \<and>
            length (scriptLines e (ipInfoRef s)) \<le> length (terminalLines s)"
      by (simp add: length_scriptLines)
  qed
  have 3: "isExitSequenceActive s' \<and> \<not> isExitSequenceActive s \<longrightarrow>
            (\<exists>k clk. ev = KeyDown k clk) \<and> isInteractive s \<and> \<not> isInteractive s'"
    using sm by auto
  have 4: "\<not> isInteractive (executeExit s) \<and> isExitSequenceActive (executeExit s)"
    by (simp add: executeExit_eq)
  have 5: "isExitSequenceActive s \<longrightarrow> handleInputSubmit clk k s = s"
    by (simp add: handleInputSubmit_blocked)
  have 6: "showBSOD s' \<and> \<not> showBSOD s \<longrightarrow>
            (\<exists>h. ev = Fire h \<and> map_of (timers s) h = Some (False, BsodTimeout)) \<and>
            isExitSequenceActive s \<and> length exitSequence \<le> exitLineIndex s"
  proof
    assume a: "showBSOD s' \<and> \<not> showBSOD s"
    with sm obtain h where h: "ev = Fire h" "map_of (timers s) h = Some (False, BsodTimeout)"
        "isExitSequenceActive s"
      by auto
    from crash_after_exit[OF inv h(2)] h
    show "(\<exists>h. ev = Fire h \<and> map_of (timers s) h = Some (False, BsodTimeout)) \<and>
            isExitSequenceActive s \<and> length exitSequence \<le> exitLineIndex s"
      by simp
  qed
  have 7: "reloaded s' \<longrightarrow> ev = RestartClick \<and> showBSOD s"
    using sm nr by auto
  from 1 2 3 4 5 6 7 show ?thesis by blast
qed

lemma lifecycle_stages:
  "stage (mount e) = 0" "stage (typedAll e) = 0" "stage (interactiveState e) = 1"
  "stage (typedIn e) = 1" "stage (flipState e clk) = 2" "stage (bsodPending e clk) = 2"
  "stage (crashed e clk) = 3" "stage (restartShown e clk) = 3" "stage (reloadedState e clk) = 4"
  by (simp_all add: stage_def mount_eq initialState_def typedAll_def typed_def interactive_fields
      typedIn_def flip_fields bsodPending_fields crashed_def crashState_def restartShown_fields
      reloadedState_def)

theorem stage_order_witness:
  "reachable env0 (typedAll env0) \<and>
   step env0 (Fire (5 + typingTicks env0)) (typedAll env0) = Some (interactiveState env0) \<and>
   stage (typedAll env0) = 0 \<and> stage (interactiveState env0) = 1 \<and>
   isInteractive (interactiveState env0) \<and> \<not> isInteractive (typedAll env0) \<and>
   length (scriptLines env0 (ipInfoRef (typedAll env0))) \<le> length (terminalLines (typedAll env0)) \<and>
   reachable env0 (typedIn env0) \<and>
   step env0 (KeyDown Enter clock0) (typedIn env0) = Some (flipState env0 clock0) \<and>
   stage (flipState env0 clock0) = 2 \<and>
   isExitSequenceActive (flipState env0 clock0) \<and> \<not> isInteractive (flipState env0 clock0) \<and>
   handleInputSubmit clock0 Enter (flipState env0 clock0) = flipState env0 clock0 \<and>
   reachable env0 (bsodPending env0 clock0) \<and>
   step env0 (Fire (Suc (8 + typingTicks env0 + exitTicks))) (bsodPending env0 clock0)
     = Some (crashed env0 clock0) \<and>
   stage (crashed env0 clock0) = 3 \<and>
   showBSOD (crashed env0 clock0) \<and> \<not> showBSOD (bsodPending env0 clock0) \<and>
   length exitSequence \<le> exitLineIndex (bsodPending env0 clock0) \<and>
   reachable env0 (restartShown env0 clock0) \<and>
   step env0 RestartClick (restartShown env0 clock0) = Some (reloadedState env0 clock0) \<and>
   stage (reloadedState env0 clock0) = 4"
proof -
  have i: "isInteractive (interactiveState env0) \<and> \<not> isInteractive (typedAll env0)"
    by (simp add: interactive_fields typedAll_fields)
  have x: "isExitSequenceActive (flipState env0 clock0)" "\<not> isInteractive (flipState env0 clock0)"
    by (simp_all add: flip_fields)
  have b: "showBSOD (crashed env0 clock0) \<and> \<not> showBSOD (bsodPending env0 clock0)"
    by (simp add: crashed_def crashState_def bsodPending_fields)
  have 1: "length (scriptLines env0 (ipInfoRef (typedAll env0))) \<le> length (terminalLines (typedAll env0))"
    using stage_order[OF reachable_typedAll[of env0] last_tick[of env0]] i by blast
  have 2: "handleInputSubmit clock0 Enter (flipState env0 clock0) = flipState env0 clock0"
    using stage_order[OF reachable_flip[of env0 clock0] step_exitInitial[of env0 clock0],
        where clk = clock0 and k = Enter] x
    by blast
  have 3: "length exitSequence \<le> exitLineIndex (bsodPending env0 clock0)"
    using stage_order[OF reachable_bsodPending[of env0 clock0] step_bsod[of env0 clock0]] b by blast
  from i x b 1 2 3 show ?thesis
    using reachable_typedAll[of env0] last_tick[of env0] reachable_typedIn[of env0]
      step_enter[of env0 clock0] reachable_bsodPending[of env0 clock0] step_bsod[of env0 clock0]
      reachable_restartShown[of env0 clock0] step_restart[of env0 clock0]
    by (simp add: lifecycle_stages)
qed

subsection \<open>The countdown of the crash screen\<close>

lemma tick_pending:
  assumes "Inv s" and "map_of (timers s) h = Some (r, CountdownTick c)"
  shows "showBSOD s \<and> c = countdown s \<and> 0 < c"
  using Inv_tickD[OF assms(1) tcbs_pending[OF assms(2)]] .

lemma tick_step:
  assumes st: "step e (Fire h) s = Some s'" and m: "map_of (timers s) h = Some (r, CountdownTick c)"
  shows "countdown s' = c - 1"
proof -
  from step_Some[OF st] obtain s1 where s1: "handle e (Fire h) s = Some s1" "s' = countdownEffect s s1"
    by blast
  from handle_Fire[OF s1(1)] m have "countdown s1 = c - 1"
    by (auto simp: clearTimeout_def)
  moreover have "countdown s' = countdown s1"
    using countdownEffect_flags[of s s1] s1(2) by (simp add: flags_def)
  ultimately show ?thesis by simp
qed


lemma crashed_tick:
  "step e (Fire (firstTick e)) (crashed e clk)
     = Some (crashState (bsodPending e clk) (exitTimers e) 6 (Suc (firstTick e)))"
proof -
  have "step e (Fire (firstTick e)) (crashState (bsodPending e clk) (exitTimers e) 7 (firstTick e))
      = Some (crashState (bsodPending e clk) (exitTimers e) (7 - 1) (Suc (firstTick e)))"
    using exitTimers_fresh[of e "Suc (Suc exitTicks)"]
    by (intro crash_tick) (simp_all add: bsodPending_fields firstTick_def)
  then show ?thesis by (simp add: crashed_def firstTick_def)
qed

lemma crashed_pending:
  "map_of (timers (crashed e clk)) (firstTick e) = Some (False, CountdownTick 7)"
proof -
  have "map_of (exitTimers e @ [(firstTick e, False, CountdownTick 7)]) (firstTick e)
      = Some (False, CountdownTick 7)"
    using exitTimers_fresh[of e "Suc (Suc exitTicks)"]
    by (intro map_of_snoc_fresh) (simp add: firstTick_def)
  then show ?thesis by (simp add: crashed_def crashState_def firstTick_def)
qed


subsection \<open>The render between an update and its effects\<close>

lemma typeCharacter_button: "showRestartButton (typeCharacter e s) = showRestartButton s"
  by (simp add: typeCharacter_def setTimeout_def Let_def)

lemma typeExitSequence_button: "showRestartButton (typeExitSequence s) = showRestartButton s"
  by (simp add: typeExitSequence_def setTimeout_def Let_def)

lemma handleInputSubmit_button:
  "showRestartButton (handleInputSubmit clk k s) = showRestartButton s"
proof (cases "isExitSequenceActive s")
  case True
  then show ?thesis by (simp add: handleInputSubmit_blocked)
next
  case ne: False
  show ?thesis
  proof (cases k)
    case Enter
    show ?thesis
    proof (cases "userInput s")
      case None
      with ne Enter show ?thesis by (simp add: handleInputSubmit_def)
    next
      case (Some u)
      show ?thesis
      proof (cases "trim u = ''''")
        case True
        with ne Enter Some show ?thesis by (simp add: handleInputSubmit_def)
      next
        case nb: False
        show ?thesis
        proof (cases "commandBranch (trim (toLowerCase (trim u))) = Flip")
          case True
          from handleInputSubmit_flip[OF ne Some nb True, of clk] Enter
          show ?thesis by simp
        next
          case False
          from handleInputSubmit_command[OF ne Some nb False, of clk] Enter
          show ?thesis by simp
        qed
      qed
    qed
  qed (simp_all add: handleInputSubmit_def Let_def)
qed

lemma runCallback_button:
  "showRestartButton (runCallback e cb s) = showRestartButton s"
  by (cases cb)
     (simp_all add: typeCharacter_button typeExitSequence_button clearInterval_def clearTimeout_def)

lemma handle_button:
  assumes "handle e ev s = Some s1"
  shows "showRestartButton s1 = showRestartButton s"
proof (cases ev)
  case (Fire h)
  from handle_Fire[OF assms[unfolded Fire]] show ?thesis
    by (auto simp: runCallback_button clearTimeout_def split: if_splits)
next
  case FetchSettled
  with assms show ?thesis
    by (auto simp: applyIpInfo_def split: if_splits sum.splits)
next
  case (KeyDown k clk)
  with assms show ?thesis by (auto simp: handleInputSubmit_button split: if_splits)
next
  case (Change v)
  with assms show ?thesis by (auto split: if_splits)
next
  case RestartClick
  with assms show ?thesis by (auto split: if_splits)
next
  case Unmount
  with assms show ?thesis by (auto simp: unmount_eq)
qed

lemma commit_flags:
  assumes "mounted s" and "\<not> reloaded s" and "handle e ev s = Some s1"
  shows "step e ev s = Some (countdownEffect s s1)" and "flags (countdownEffect s s1) = flags s1"
  using assms by (simp_all add: step_def countdownEffect_flags)

lemma rendered_range:
  assumes "rendered e s"
  shows "0 \<le> countdown s \<and> countdown s \<le> 7 \<and> (showRestartButton s \<longrightarrow> showBSOD s \<and> countdown s = 0)"
  using assms
proof cases
  case rendered_first
  then show ?thesis by (simp add: initialState_def)
next
  case rendered_effects
  then have "Inv s" by (rule reachable_Inv)
  then show ?thesis by (simp add: Inv_def)
next
  case (rendered_commit s0 ev)
  let ?s' = "countdownEffect s0 s"
  have inv: "Inv s0" using rendered_commit(1) by (rule reachable_Inv)
  have st: "step e ev s0 = Some ?s'" and fl: "flags ?s' = flags s"
    using commit_flags[OF rendered_commit(2,3,4)] by simp_all
  have "reachable e ?s'" using rendered_commit(1) st by (rule reach_step)
  then have inv': "Inv ?s'" by (rule reachable_Inv)
  from fl have c: "countdown s = countdown ?s'" "showBSOD s = showBSOD ?s'"
    by (simp_all add: flags_def)
  have r: "0 \<le> countdown s \<and> countdown s \<le> 7" using inv' c by (simp add: Inv_def)
  have b: "showRestartButton s = showRestartButton s0"
    using rendered_commit(4) by (rule handle_button)
  have z: "showBSOD s0 \<and> countdown s0 = 0 \<Longrightarrow> showBSOD s \<and> countdown s = 0"
    using step_summary[OF inv st, unfolded flags_simps flags_eq] c by auto
  have "showRestartButton s0 \<longrightarrow> showBSOD s0 \<and> countdown s0 = 0"
    using inv by (simp add: Inv_def)
  with b z r show ?thesis by blast
qed

lemma rendered_late:
  assumes "rendered e s" and "showBSOD s" and "countdown s = 0" and "\<not> showRestartButton s"
  shows "\<exists>s0 h. reachable e s0 \<and> showBSOD s0 \<and> countdown s0 = 1 \<and>
           map_of (timers s0) h = Some (False, CountdownTick 1) \<and>
           handle e (Fire h) s0 = Some s \<and>
           step e (Fire h) s0 = Some (countdownEffect s0 s) \<and>
           showRestartButton (countdownEffect s0 s)"
  using assms(1)
proof cases
  case rendered_first
  with assms(2) show ?thesis by (simp add: initialState_def)
next
  case rendered_effects
  then have "Inv s" by (rule reachable_Inv)
  with assms(2,3,4) show ?thesis by (simp add: Inv_def)
next
  case (rendered_commit s0 ev)
  let ?s' = "countdownEffect s0 s"
  have inv: "Inv s0" using rendered_commit(1) by (rule reachable_Inv)
  have st: "step e ev s0 = Some ?s'" and fl: "flags ?s' = flags s"
    using commit_flags[OF rendered_commit(2,3,4)] by simp_all
  have "reachable e ?s'" using rendered_commit(1) st by (rule reach_step)
  then have inv': "Inv ?s'" by (rule reachable_Inv)
  from fl assms(2,3) have c: "countdown ?s' = 0" "showBSOD ?s'"
    by (simp_all add: flags_def)
  then have btn: "showRestartButton ?s'" using inv' by (simp add: Inv_def)
  have b: "showRestartButton s0 = showRestartButton s"
    using handle_button[OF rendered_commit(4)] by simp
  with assms(4) inv have n0: "\<not> (showBSOD s0 \<and> countdown s0 = 0)" by (simp add: Inv_def)
  from step_summary[OF inv st, unfolded flags_simps flags_eq] c n0
  obtain h where h: "ev = Fire h" "map_of (timers s0) h = Some (False, CountdownTick (countdown s0))"
      "showBSOD s0" "countdown s0 = 1"
    by auto
  from rendered_commit(1) h(3,4) h(2)[unfolded h(4)] rendered_commit(4)[unfolded h(1)]
    st[unfolded h(1)] btn
  show ?thesis by blast
qed

lemma lastTick_fresh: "\<forall>t \<in> set (exitTimers e). fst t < lastTick e"
  using exitTimers_fresh[of e "Suc (Suc exitTicks) + 6"]
  by (simp add: firstTick_def lastTick_def)

lemma run_to_lastCount:
  "run e (map Fire [firstTick e ..< firstTick e + 6]) (crashed e clk) = Some (lastCount e clk)"
proof -
  have fr: "\<forall>t \<in> set (exitTimers e). fst t < firstTick e"
    using exitTimers_fresh[of e "Suc (Suc exitTicks)"] by (simp add: firstTick_def)
  have "run e (map Fire [firstTick e ..< firstTick e + 6])
          (crashState (bsodPending e clk) (exitTimers e) (1 + int 6) (firstTick e))
      = Some (crashState (bsodPending e clk) (exitTimers e) 1 (firstTick e + 6))"
    using bsodPending_fields(1,2) fr by (rule run_ticks)
  then show ?thesis
    by (simp add: crashed_def lastCount_def lastTick_def firstTick_def)
qed

lemma reachable_lastCount: "reachable e (lastCount e clk)"
  using reachable_crashed run_to_lastCount by (rule run_reachable)

lemma lastCount_fields:
  "mounted (lastCount e clk)" "\<not> reloaded (lastCount e clk)"
  "showBSOD (lastCount e clk)" "countdown (lastCount e clk) = 1"
  "\<not> showRestartButton (lastCount e clk)"
  "timers (lastCount e clk) = exitTimers e @ [(lastTick e, False, CountdownTick 1)]"
  by (simp_all add: lastCount_def crashState_def bsodPending_def exitTypedAll_def
      exitTyped_def flipState_eq typedIn_def interactiveState_def typedAll_def typed_def
      mount_eq initialState_def)

lemma lastCount_pending:
  "map_of (timers (lastCount e clk)) (lastTick e) = Some (False, CountdownTick 1)"
  unfolding lastCount_fields using lastTick_fresh by (rule map_of_snoc_fresh)

lemma handle_lastTick:
  "handle e (Fire (lastTick e)) (lastCount e clk) = Some (lastCommit e clk)"
proof -
  have "clearTimeout (lastTick e) (lastCount e clk) = (lastCount e clk)\<lparr>timers := exitTimers e\<rparr>"
    unfolding clearTimeout_def lastCount_fields
    using filter_snoc_fresh[OF lastTick_fresh] by simp
  with lastCount_pending[of e clk] show ?thesis by (simp add: lastCommit_def)
qed

lemma step_lastTick:
  "step e (Fire (lastTick e)) (lastCount e clk) = Some (restartShown e clk)"
  unfolding lastCount_def restartShown_def
  using lastTick_fresh[of e]
  by (simp add: crash_last bsodPending_fields lastTick_def firstTick_def)

lemma rendered_lastCommit: "rendered e (lastCommit e clk)"
  using reachable_lastCount lastCount_fields(1,2) handle_lastTick by (rule rendered_commit)

lemma lastCommit_fields:
  "showBSOD (lastCommit e clk)" "countdown (lastCommit e clk) = 0"
  "\<not> showRestartButton (lastCommit e clk)"
  by (simp_all add: lastCommit_def lastCount_fields)

text \<open>
  Claim C6, as stated, fails: the restart button is set by the countdown effect
  (lines 572-581), which React runs after it has committed the render of the update. The
  last tick of the countdown commits a render in which \<^verbatim>\<open>showBSOD\<close> holds and the countdown
  is 0 while \<^verbatim>\<open>showRestartButton\<close> is still false.
\<close>

theorem restart_button_late:
  "reachable env0 (lastCount env0 clock0) \<and>
   handle env0 (Fire (lastTick env0)) (lastCount env0 clock0) = Some (lastCommit env0 clock0) \<and>
   rendered env0 (lastCommit env0 clock0) \<and>
   showBSOD (lastCommit env0 clock0) \<and> countdown (lastCommit env0 clock0) = 0 \<and>
   \<not> showRestartButton (lastCommit env0 clock0) \<and>
   (showRestartButton (lastCommit env0 clock0)
      \<noteq> (showBSOD (lastCommit env0 clock0) \<and> countdown (lastCommit env0 clock0) = 0))"
  using reachable_lastCount[of env0 clock0] handle_lastTick[of env0 clock0]
    rendered_lastCommit[of env0 clock0] lastCommit_fields[of env0 clock0]
  by simp

text \<open>
  Claim C6, amended. The countdown is 7 when the crash screen appears, a tick fires only
  while \<^verbatim>\<open>showBSOD\<close> holds and the countdown is positive and takes exactly 1 off, no other
  update changes the countdown, and in every render, committed or after its effects, the
  countdown lies between 0 and 7 and \<^verbatim>\<open>showRestartButton\<close> holds only when
  \<^verbatim>\<open>showBSOD\<close> holds and the countdown is 0. Once the effects of an update have run,
  \<^verbatim>\<open>showRestartButton\<close> holds exactly when \<^verbatim>\<open>showBSOD\<close> holds and the countdown is 0.
  The one render with \<^verbatim>\<open>showBSOD\<close>, countdown 0 and no restart button is the render the
  last tick commits; the countdown effect of that update sets the button.
\<close>

theorem bsod_countdown:
  assumes "rendered e s"
  shows "0 \<le> countdown s \<and> countdown s \<le> 7 \<and>
         (showRestartButton s \<longrightarrow> showBSOD s \<and> countdown s = 0) \<and>
         (showBSOD s \<and> countdown s = 0 \<and> \<not> showRestartButton s \<longrightarrow>
            (\<exists>s0 h. reachable e s0 \<and> showBSOD s0 \<and> countdown s0 = 1 \<and>
               map_of (timers s0) h = Some (False, CountdownTick 1) \<and>
               handle e (Fire h) s0 = Some s \<and>
               step e (Fire h) s0 = Some (countdownEffect s0 s) \<and>
               showRestartButton (countdownEffect s0 s))) \<and>
         (reachable e s \<longrightarrow>
            (showRestartButton s \<longleftrightarrow> showBSOD s \<and> countdown s = 0) \<and>
            (step e ev s = Some s' \<longrightarrow>
               (showBSOD s' \<and> \<not> showBSOD s \<longrightarrow> countdown s' = 7) \<and>
               (showBSOD s \<longrightarrow> showBSOD s') \<and>
               (countdown s' \<noteq> countdown s \<longrightarrow>
                  (\<exists>h. ev = Fire h \<and> map_of (timers s) h = Some (False, CountdownTick (countdown s))) \<and>
                  showBSOD s \<and> 0 < countdown s \<and> countdown s' = countdown s - 1)) \<and>
            (step e (Fire h) s = Some s' \<and> map_of (timers s) h = Some (r, CountdownTick c) \<longrightarrow>
               showBSOD s \<and> 0 < countdown s \<and> c = countdown s \<and> countdown s' = countdown s - 1) \<and>
            (mounted s \<and> \<not> reloaded s \<and> handle e ev s = Some s1 \<longrightarrow>
               showBSOD s1 = showBSOD (countdownEffect s s1) \<and>
               countdown s1 = countdown (countdownEffect s s1) \<and>
               step e ev s = Some (countdownEffect s s1)))"
proof -
  note 1 = rendered_range[OF assms]
  have 2: "showBSOD s \<and> countdown s = 0 \<and> \<not> showRestartButton s \<longrightarrow>
            (\<exists>s0 h. reachable e s0 \<and> showBSOD s0 \<and> countdown s0 = 1 \<and>
               map_of (timers s0) h = Some (False, CountdownTick 1) \<and>
               handle e (Fire h) s0 = Some s \<and>
               step e (Fire h) s0 = Some (countdownEffect s0 s) \<and>
               showRestartButton (countdownEffect s0 s))"
    using rendered_late[OF assms] by blast
  have 3: "(showRestartButton s \<longleftrightarrow> showBSOD s \<and> countdown s = 0) \<and>
            (step e ev s = Some s' \<longrightarrow>
               (showBSOD s' \<and> \<not> showBSOD s \<longrightarrow> countdown s' = 7) \<and>
               (showBSOD s \<longrightarrow> showBSOD s') \<and>
               (countdown s' \<noteq> countdown s \<longrightarrow>
                  (\<exists>h. ev = Fire h \<and> map_of (timers s) h = Some (False, CountdownTick (countdown s))) \<and>
                  showBSOD s \<and> 0 < countdown s \<and> countdown s' = countdown s - 1)) \<and>
            (step e (Fire h) s = Some s' \<and> map_of (timers s) h = Some (r, CountdownTick c) \<longrightarrow>
               showBSOD s \<and> 0 < countdown s \<and> c = countdown s \<and> countdown s' = countdown s - 1) \<and>
            (mounted s \<and> \<not> reloaded s \<and> handle e ev s = Some s1 \<longrightarrow>
               showBSOD s1 = showBSOD (countdownEffect s s1) \<and>
               countdown s1 = countdown (countdownEffect s s1) \<and>
               step e ev s = Some (countdownEffect s s1))"
    if re: "reachable e s"
  proof -
    have inv: "Inv s" using re by (rule reachable_Inv)
    have a: "showRestartButton s \<longleftrightarrow> showBSOD s \<and> countdown s = 0"
      using inv by (simp add: Inv_def)
    have n7: "\<not> showBSOD s \<Longrightarrow> countdown s = 7" using inv by (simp add: Inv_def)
    have b: "step e ev s = Some s' \<longrightarrow>
               (showBSOD s' \<and> \<not> showBSOD s \<longrightarrow> countdown s' = 7) \<and>
               (showBSOD s \<longrightarrow> showBSOD s') \<and>
               (countdown s' \<noteq> countdown s \<longrightarrow>
                  (\<exists>h. ev = Fire h \<and> map_of (timers s) h = Some (False, CountdownTick (countdown s))) \<and>
                  showBSOD s \<and> 0 < countdown s \<and> countdown s' = countdown s - 1)"
    proof
      assume st: "step e ev s = Some s'"
      note sm = step_summary[OF inv st, unfolded flags_simps flags_eq]
      have x: "showBSOD s' \<and> \<not> showBSOD s \<longrightarrow> countdown s' = 7" using sm by auto
      have y: "showBSOD s \<longrightarrow> showBSOD s'" using sm by auto
      have z: "countdown s' \<noteq> countdown s \<longrightarrow>
               (\<exists>h. ev = Fire h \<and> map_of (timers s) h = Some (False, CountdownTick (countdown s))) \<and>
               showBSOD s \<and> 0 < countdown s \<and> countdown s' = countdown s - 1"
        using sm n7 by auto
      from x y z show "(showBSOD s' \<and> \<not> showBSOD s \<longrightarrow> countdown s' = 7) \<and>
               (showBSOD s \<longrightarrow> showBSOD s') \<and>
               (countdown s' \<noteq> countdown s \<longrightarrow>
                  (\<exists>h. ev = Fire h \<and> map_of (timers s) h = Some (False, CountdownTick (countdown s))) \<and>
                  showBSOD s \<and> 0 < countdown s \<and> countdown s' = countdown s - 1)"
        by blast
    qed
    have c: "step e (Fire h) s = Some s' \<and> map_of (timers s) h = Some (r, CountdownTick c) \<longrightarrow>
               showBSOD s \<and> 0 < countdown s \<and> c = countdown s \<and> countdown s' = countdown s - 1"
    proof
      assume p: "step e (Fire h) s = Some s' \<and> map_of (timers s) h = Some (r, CountdownTick c)"
      from tick_pending[OF inv conjunct2[OF p]] have t: "showBSOD s" "c = countdown s" "0 < c" by simp_all
      from tick_step[OF conjunct1[OF p] conjunct2[OF p]] t have "countdown s' = countdown s - 1" by simp
      with t show "showBSOD s \<and> 0 < countdown s \<and> c = countdown s \<and> countdown s' = countdown s - 1"
        by simp
    qed
    have d: "mounted s \<and> \<not> reloaded s \<and> handle e ev s = Some s1 \<longrightarrow>
               showBSOD s1 = showBSOD (countdownEffect s s1) \<and>
               countdown s1 = countdown (countdownEffect s s1) \<and>
               step e ev s = Some (countdownEffect s s1)"
      using countdownEffect_flags[of s s1] by (auto simp: flags_def step_def)
    from a b c d show ?thesis by blast
  qed
  from 1 2 3 show ?thesis by blast
qed

theorem bsod_countdown_witness:
  "reachable env0 (bsodPending env0 clock0) \<and>
   step env0 (Fire (Suc (8 + typingTicks env0 + exitTicks))) (bsodPending env0 clock0)
     = Some (crashed env0 clock0) \<and>
   \<not> showBSOD (bsodPending env0 clock0) \<and> showBSOD (crashed env0 clock0) \<and>
   countdown (crashed env0 clock0) = 7 \<and> \<not> showRestartButton (crashed env0 clock0) \<and>
   reachable env0 (crashed env0 clock0) \<and>
   map_of (timers (crashed env0 clock0)) (firstTick env0) = Some (False, CountdownTick 7) \<and>
   step env0 (Fire (firstTick env0)) (crashed env0 clock0)
     = Some (crashState (bsodPending env0 clock0) (exitTimers env0) 6 (Suc (firstTick env0))) \<and>
   countdown (crashState (bsodPending env0 clock0) (exitTimers env0) 6 (Suc (firstTick env0))) = 6 \<and>
   run env0 (countdownEvents env0) (crashed env0 clock0) = Some (restartShown env0 clock0) \<and>
   reachable env0 (restartShown env0 clock0) \<and>
   showBSOD (restartShown env0 clock0) \<and> countdown (restartShown env0 clock0) = 0 \<and>
   showRestartButton (restartShown env0 clock0) \<and>
   rendered env0 (lastCommit env0 clock0) \<and>
   showBSOD (lastCommit env0 clock0) \<and> countdown (lastCommit env0 clock0) = 0 \<and>
   \<not> showRestartButton (lastCommit env0 clock0) \<and>
   (\<exists>s0 h. reachable env0 s0 \<and> countdown s0 = 1 \<and>
      map_of (timers s0) h = Some (False, CountdownTick 1) \<and>
      handle env0 (Fire h) s0 = Some (lastCommit env0 clock0) \<and>
      showRestartButton (countdownEffect s0 (lastCommit env0 clock0))) \<and>
   handle env0 (Fire (lastTick env0)) (lastCount env0 clock0) = Some (lastCommit env0 clock0) \<and>
   step env0 (Fire (lastTick env0)) (lastCount env0 clock0) = Some (restartShown env0 clock0)"
proof -
  have b: "showBSOD (crashed env0 clock0)" "\<not> showBSOD (bsodPending env0 clock0)"
    by (simp_all add: crashed_def crashState_def bsodPending_fields)
  have 1: "countdown (crashed env0 clock0) = 7"
    using bsod_countdown[OF rendered_effects[OF reachable_bsodPending[of env0 clock0]],
        where ev = "Fire (Suc (8 + typingTicks env0 + exitTicks))" and s' = "crashed env0 clock0"]
      reachable_bsodPending[of env0 clock0] step_bsod[of env0 clock0] b
    by blast
  have 2: "\<not> showRestartButton (crashed env0 clock0)"
    using bsod_countdown[OF rendered_effects[OF reachable_crashed[of env0 clock0]]] 1 by simp
  have 3: "countdown (crashState (bsodPending env0 clock0) (exitTimers env0) 6 (Suc (firstTick env0)))
      = countdown (crashed env0 clock0) - 1"
    using bsod_countdown[OF rendered_effects[OF reachable_crashed[of env0 clock0]],
        where h = "firstTick env0" and r = False and c = 7
          and s' = "crashState (bsodPending env0 clock0) (exitTimers env0) 6 (Suc (firstTick env0))"]
      reachable_crashed[of env0 clock0] crashed_tick[of env0 clock0] crashed_pending[of env0 clock0]
    by blast
  have 4: "showRestartButton (restartShown env0 clock0)"
    using bsod_countdown[OF rendered_effects[OF reachable_restartShown[of env0 clock0]]]
      reachable_restartShown[of env0 clock0]
    by (simp add: restartShown_fields)
  have 5: "\<exists>s0 h. reachable env0 s0 \<and> countdown s0 = 1 \<and>
      map_of (timers s0) h = Some (False, CountdownTick 1) \<and>
      handle env0 (Fire h) s0 = Some (lastCommit env0 clock0) \<and>
      showRestartButton (countdownEffect s0 (lastCommit env0 clock0))"
    using bsod_countdown[OF rendered_lastCommit[of env0 clock0]] lastCommit_fields[of env0 clock0]
    by blast
  from b 1 2 3 4 5 show ?thesis
    using reachable_bsodPending[of env0 clock0] step_bsod[of env0 clock0]
      reachable_crashed[of env0 clock0] crashed_pending[of env0 clock0] crashed_tick[of env0 clock0]
      run_crash_countdown[of env0 clock0] reachable_restartShown[of env0 clock0]
      rendered_lastCommit[of env0 clock0] lastCommit_fields[of env0 clock0]
      handle_lastTick[of env0 clock0] step_lastTick[of env0 clock0]
    by (simp add: restartShown_fields)
qed

subsection \<open>The typed text between two ticks\<close>

lemma PInv_pview: "pview s' = pview s \<Longrightarrow> PInv e s' = PInv e s"
  by (simp add: pview_def tview_def PInv_def)

lemma PInv_mount: "PInv e (mount e)"
  by (simp add: PInv_def mount_eq initialState_def)

lemma countdownEffect_pview: "pview (countdownEffect s s1) = pview s1"
  by (cases "countdownTimer s1")
     (simp_all add: pview_def tview_def countdownEffect_def Let_def setTimeout_def clearTimeout_def)

lemma interval_pview: "isIntervalCb cb \<Longrightarrow> pview (runCallback e cb s) = pview s"
  by (cases cb) (simp_all add: isIntervalCb_def pview_def tview_def clearInterval_def clearTimeout_def)

lemma clearTimeout_pview [simp]: "pview (clearTimeout h s) = pview s"
  by (simp add: pview_def tview_def clearTimeout_def)

lemma PInv_clearTimeout [simp]: "PInv e (clearTimeout h s) = PInv e s"
  by (rule PInv_pview) simp

lemma PInv_typeCharacter:
  assumes p: "PInv e s" and st: "\<not> isInteractive s" "\<not> isExitSequenceActive s"
  shows "PInv e (typeCharacter e s)"
proof -
  from p st have x0: "exitCharIndex s = 0" by (auto simp: PInv_def)
  consider (fin) "14 \<le> lineIndex s"
    | (chr) "lineIndex s < 14" "charIndex s < length (scriptLines e (ipInfoRef s) ! lineIndex s)"
    | (lin) "lineIndex s < 14" "\<not> charIndex s < length (scriptLines e (ipInfoRef s) ! lineIndex s)"
    by linarith
  then show ?thesis
  proof cases
    case fin
    with x0 show ?thesis by (simp add: typeCharacter_done PInv_def)
  next
    case chr
    have "opened s \<noteq> []"
      using p st by (cases "charIndex s = 0") (simp_all add: opened_def PInv_def)
    with x0 chr(1) show ?thesis
      unfolding typeCharacter_char[OF chr]
      by (simp add: PInv_def last_setLast)
  next
    case lin
    with x0 show ?thesis
      unfolding typeCharacter_line[OF lin] by (simp add: PInv_def)
  qed
qed

lemma PInv_typeExitSequence:
  assumes p: "PInv e s" and st: "isExitSequenceActive s"
  shows "PInv e (typeExitSequence s)"
proof -
  consider (fin) "30 \<le> exitLineIndex s"
    | (emp) "exitLineIndex s < 30" "exitSequence ! exitLineIndex s = ''''"
    | (chr) "exitLineIndex s < 30" "exitSequence ! exitLineIndex s \<noteq> ''''"
        "exitCharIndex s < length (exitSequence ! exitLineIndex s)"
    | (lin) "exitLineIndex s < 30" "exitSequence ! exitLineIndex s \<noteq> ''''"
        "\<not> exitCharIndex s < length (exitSequence ! exitLineIndex s)"
    by linarith
  then show ?thesis
  proof cases
    case fin
    with p st show ?thesis
      unfolding typeExitSequence_done[OF fin] by (simp add: PInv_def)
  next
    case emp
    with st show ?thesis
      unfolding typeExitSequence_empty[OF emp] by (simp add: PInv_def)
  next
    case chr
    have "openedExit s \<noteq> []"
      using p by (cases "exitCharIndex s = 0") (simp_all add: PInv_def)
    with st chr(1) show ?thesis
      unfolding typeExitSequence_char[OF chr]
      by (simp add: PInv_def last_setLast)
  next
    case lin
    with st show ?thesis
      unfolding typeExitSequence_line[OF lin] by (simp add: PInv_def)
  qed
qed

lemma PInv_exitInitial:
  assumes p: "PInv e s" and st: "isExitSequenceActive s"
  shows "PInv e (typeExitSequence (s\<lparr>exitLineIndex := 0, exitCharIndex := 0\<rparr>))"
proof -
  have "PInv e (s\<lparr>exitLineIndex := 0, exitCharIndex := 0\<rparr>)"
    using st by (simp add: PInv_def)
  then show ?thesis using st by (intro PInv_typeExitSequence) simp_all
qed

lemma exitSequence_unmarked: "\<forall>l \<in> set exitSequence. \<not> includesStr l MARKER"
  unfolding includesStr_def MARKER_def exitSequence_def by code_simp

lemma exit_prefix_unmarked:
  assumes "li < 30"
  shows "\<not> includesStr (take c (exitSequence ! li)) MARKER"
proof -
  have "exitSequence ! li \<in> set exitSequence" using assms by (intro nth_mem) simp
  with exitSequence_unmarked have "\<not> includesStr (exitSequence ! li) MARKER" by blast
  then show ?thesis using includesStr_take by blast
qed

lemma marker_kept:
  assumes "includesStr (take c (scriptLines e a ! i)) MARKER"
  shows "includesStr (take c (scriptLines e b ! i)) MARKER"
proof (cases "i = 2")
  case True
  show ?thesis
  proof (rule ccontr)
    assume n: "\<not> includesStr (take c (scriptLines e b ! i)) MARKER"
    then have "\<not> includesStr (take c (traceLine b)) MARKER" using True by simp
    from traceLine_prefix[OF this, of a] n assms True show False by simp
  qed
next
  case False
  from scriptLines_nth_other[OF False, of e a b] assms show ?thesis by simp
qed

lemma prefix_kept:
  assumes "\<not> includesStr (take c (scriptLines e a ! i)) MARKER"
  shows "take c (scriptLines e b ! i) = take c (scriptLines e a ! i)"
proof (cases "i = 2")
  case True
  with assms have "\<not> includesStr (take c (traceLine a)) MARKER" by simp
  from traceLine_prefix[OF this, of b] True show ?thesis by simp
next
  case False
  from scriptLines_nth_other[OF False, of e a b] show ?thesis by simp
qed

lemma PInv_applyIpInfo:
  assumes p: "PInv e s"
  shows "PInv e (applyIpInfo b (s\<lparr>fetchPending := False\<rparr>))"
proof -
  define f where "f = (\<lambda>line. if includesStr line MARKER then traceLine b else line)"
  let ?s' = "applyIpInfo b (s\<lparr>fetchPending := False\<rparr>)"
  let ?old = "take (charIndex s) (scriptLines e (ipInfoRef s) ! lineIndex s)"
  let ?new = "take (charIndex s) (scriptLines e b ! lineIndex s)"
  have fields: "isInteractive ?s' = isInteractive s" "isExitSequenceActive ?s' = isExitSequenceActive s"
      "lineIndex ?s' = lineIndex s" "charIndex ?s' = charIndex s" "ipInfoRef ?s' = b"
      "exitLineIndex ?s' = exitLineIndex s" "exitCharIndex ?s' = exitCharIndex s"
      "\<not> fetchPending ?s'" "terminalLines ?s' = map f (terminalLines s)"
    by (simp_all add: applyIpInfo_def f_def)
  have lastf: "terminalLines s \<noteq> [] \<Longrightarrow> last (map f (terminalLines s)) = f (last (terminalLines s))"
    by (simp add: last_map)
  have typing: "lineIndex s < 14 \<and> map f (terminalLines s) \<noteq> [] \<and>
      (last (map f (terminalLines s)) = ?new \<or>
       includesStr ?new MARKER \<and> last (map f (terminalLines s)) = traceLine b)"
    if st: "\<not> isInteractive s" "\<not> isExitSequenceActive s" "0 < charIndex s"
  proof -
    from p st have li: "lineIndex s < 14" and ne: "terminalLines s \<noteq> []"
      and d: "last (terminalLines s) = ?old \<or>
              includesStr ?old MARKER \<and> last (terminalLines s) = traceLine (ipInfoRef s)"
      by (auto simp: PInv_def)
    have "f (last (terminalLines s)) = ?new \<or> includesStr ?new MARKER \<and> f (last (terminalLines s)) = traceLine b"
    proof (cases "includesStr ?old MARKER")
      case True
      then have n: "includesStr ?new MARKER" by (rule marker_kept)
      from d True have "f (last (terminalLines s)) = traceLine b"
        by (auto simp: f_def includesStr_traceLine)
      with n show ?thesis by simp
    next
      case False
      with d have "last (terminalLines s) = ?old" by blast
      with False prefix_kept[OF False, of b] show ?thesis by (simp add: f_def)
    qed
    with li ne lastf show ?thesis by simp
  qed
  have exit: "isExitSequenceActive s \<and> exitLineIndex s < 30 \<and> map f (terminalLines s) \<noteq> [] \<and>
      last (map f (terminalLines s)) = take (exitCharIndex s) (exitSequence ! exitLineIndex s)"
    if x: "0 < exitCharIndex s"
  proof -
    from p x have a: "isExitSequenceActive s" "exitLineIndex s < 30" "terminalLines s \<noteq> []"
        "last (terminalLines s) = take (exitCharIndex s) (exitSequence ! exitLineIndex s)"
      by (simp_all add: PInv_def)
    from exit_prefix_unmarked[OF a(2), of "exitCharIndex s"] a(4)
    have "f (last (terminalLines s)) = last (terminalLines s)" by (simp add: f_def)
    with a lastf show ?thesis by simp
  qed
  show ?thesis
    unfolding PInv_def fields(1,2,3,4,5,6,7,9) using typing exit fields(8) by blast
qed

lemma handleInputSubmit_exitIndex:
  "exitCharIndex (handleInputSubmit clk k s) = exitCharIndex s"
proof (cases "isExitSequenceActive s")
  case True
  then show ?thesis by (simp add: handleInputSubmit_blocked)
next
  case ne: False
  show ?thesis
  proof (cases k)
    case Enter
    show ?thesis
    proof (cases "userInput s")
      case None
      with ne Enter show ?thesis by (simp add: handleInputSubmit_def)
    next
      case (Some u)
      show ?thesis
      proof (cases "trim u = ''''")
        case True
        with ne Enter Some show ?thesis by (simp add: handleInputSubmit_def)
      next
        case nb: False
        show ?thesis
        proof (cases "commandBranch (trim (toLowerCase (trim u))) = Flip")
          case True
          from handleInputSubmit_flip[OF ne Some nb True, of clk] Enter
          show ?thesis by simp
        next
          case False
          from handleInputSubmit_command[OF ne Some nb False, of clk] Enter
          show ?thesis by simp
        qed
      qed
    qed
  qed (simp_all add: handleInputSubmit_def Let_def)
qed

lemma PInv_step:
  assumes inv: "Inv s" and p: "PInv e s" and st: "step e ev s = Some s'"
  shows "PInv e s'"
proof -
  from step_Some[OF st] obtain s1 where
    live: "mounted s" "\<not> reloaded s" and h: "handle e ev s = Some s1" and s': "s' = countdownEffect s s1"
    by blast
  have pv: "pview s' = pview s1" by (simp add: s' countdownEffect_pview)
  have same: "pview s1 = pview s \<Longrightarrow> PInv e s'"
  proof -
    assume "pview s1 = pview s"
    with pv have "pview s' = pview s" by simp
    from PInv_pview[OF this] p show "PInv e s'" by simp
  qed
  have to: "PInv e s1 \<Longrightarrow> PInv e s'" using PInv_pview[OF pv] by simp
  have pc: "PInv e (clearTimeout x s)" for x using p by simp
  have ic: "isInteractive (clearTimeout x s) = isInteractive s"
      "isExitSequenceActive (clearTimeout x s) = isExitSequenceActive s" for x
    by (simp_all add: clearTimeout_def)
  show ?thesis
  proof (cases ev)
    case (Fire x)
    from handle_Fire[OF h[unfolded Fire]] obtain r cb where
      m: "map_of (timers s) x = Some (r, cb)" and
      s1: "s1 = runCallback e cb (if r then s else clearTimeout x s)"
      by blast
    show ?thesis
    proof (cases "isIntervalCb cb")
      case True
      then show ?thesis by (intro same) (simp add: s1 interval_pview)
    next
      case ni: False
      with inv m have r: "\<not> r" by (rule one_shot)
      from m r have m': "map_of (timers s) x = Some (False, cb)" by simp
      show ?thesis
      proof (cases cb)
        case TypeCharacter
        from typing_stage(1,2)[OF inv m[unfolded TypeCharacter]]
        have "PInv e (typeCharacter e (clearTimeout x s))"
          by (intro PInv_typeCharacter pc) (simp_all only: ic not_False_eq_True)
        with r TypeCharacter show ?thesis by (intro to) (simp add: s1)
      next
        case TypeExitSequence
        have "isExitChain TypeExitSequence" by (simp add: isExitChain_def)
        from exit_pending(2)[OF inv m'[unfolded TypeExitSequence] this]
        have "PInv e (typeExitSequence (clearTimeout x s))"
          by (intro PInv_typeExitSequence pc) (simp only: ic)
        with r TypeExitSequence show ?thesis by (intro to) (simp add: s1)
      next
        case ExitInitial
        have "isExitChain ExitInitial" by (simp add: isExitChain_def)
        from exit_pending(2)[OF inv m'[unfolded ExitInitial] this]
        have "PInv e (typeExitSequence ((clearTimeout x s)\<lparr>exitLineIndex := 0, exitCharIndex := 0\<rparr>))"
          by (intro PInv_exitInitial pc) (simp only: ic)
        with r ExitInitial show ?thesis by (intro to) (simp add: s1)
      next
        case BsodTimeout
        with r show ?thesis by (intro same) (simp add: s1 pview_def tview_def clearTimeout_def)
      next
        case (CountdownTick c)
        with r show ?thesis by (intro same) (simp add: s1 pview_def tview_def clearTimeout_def)
      next
        case FocusInput
        with r show ?thesis by (intro same) (simp add: s1)
      qed (use ni in \<open>simp_all add: isIntervalCb_def\<close>)
    qed
  next
    case FetchSettled
    obtain ipInfo where f: "fetchIPInfo (nav e) (net e) 1 = Inr ipInfo"
      using fetchIPInfo_Inr by blast
    with h FetchSettled have s1: "s1 = applyIpInfo ipInfo (s\<lparr>fetchPending := False\<rparr>)"
      by (simp split: if_splits)
    from PInv_applyIpInfo[OF p, of ipInfo] show ?thesis by (intro to) (simp add: s1)
  next
    case (KeyDown k clk)
    with h have ir: "inputRendered s" and s1: "s1 = handleInputSubmit clk k s"
      by (simp_all split: if_splits)
    from ir have i: "isInteractive s" "\<not> isExitSequenceActive s" by (simp_all add: inputRendered_def)
    from p i(2) have x0: "exitCharIndex s = 0" by (auto simp: PInv_def)
    from handleInputSubmit_flags[OF i, of clk k]
    have "isInteractive s1 \<or> isExitSequenceActive s1" using i by (auto simp: s1 flags_def)
    moreover have "exitCharIndex s1 = 0" using x0 by (simp add: s1 handleInputSubmit_exitIndex)
    ultimately have "PInv e s1" by (auto simp: PInv_def)
    then show ?thesis by (rule to)
  next
    case (Change v)
    with h show ?thesis by (intro same) (auto simp: pview_def tview_def split: if_splits)
  next
    case RestartClick
    with h show ?thesis by (intro same) (auto simp: pview_def tview_def split: if_splits)
  next
    case Unmount
    with h show ?thesis by (intro same) (auto simp: pview_def tview_def unmount_eq)
  qed
qed

lemma reachable_PInv: "reachable e s \<Longrightarrow> PInv e s"
proof (induction rule: reachable.induct)
  case reach_mount
  show ?case by (rule PInv_mount)
next
  case (reach_step s ev s')
  from reachable_Inv[OF reach_step.hyps(1)] reach_step.IH reach_step.hyps(2)
  show ?case by (rule PInv_step)
qed

subsection \<open>The fetch settles inside the line that carries the IP information\<close>

lemma run_typed_chars:
  assumes live: "mounted s" "\<not> reloaded s" and li: "li < 14"
    and L: "L = scriptLines e (ipInfoRef s) ! li" and fresh: "\<forall>t \<in> set ts. fst t < h"
  shows "Suc k \<le> length L \<Longrightarrow>
     run e (map Fire [h ..< h + Suc k]) (typed s ts li 0 X h)
       = Some (typed s ts li (Suc k) (X @ [take (Suc k) L]) (h + Suc k))"
proof (induction k)
  case 0
  then have c: "0 < length (scriptLines e (ipInfoRef s) ! li)" using L by auto
  have "step e (Fire h) (typed s ts li 0 X h) = Some (typed s ts li (Suc 0) (X @ [take (Suc 0) L]) (Suc h))"
    using typed_tick_char[OF live fresh li c, of X] by (simp add: setLast_def L)
  then show ?case by simp
next
  case (Suc k)
  then have c: "Suc k < length (scriptLines e (ipInfoRef s) ! li)" using L by simp
  have fr: "\<forall>t \<in> set ts. fst t < h + Suc k" using fresh by auto
  have a: "run e (map Fire [h ..< h + Suc k]) (typed s ts li 0 X h)
      = Some (typed s ts li (Suc k) (X @ [take (Suc k) L]) (h + Suc k))"
    using Suc by simp
  have b: "step e (Fire (h + Suc k)) (typed s ts li (Suc k) (X @ [take (Suc k) L]) (h + Suc k))
      = Some (typed s ts li (Suc (Suc k)) (X @ [take (Suc (Suc k)) L]) (Suc (h + Suc k)))"
    using typed_tick_char[OF live fr li c, of "X @ [take (Suc k) L]"] by (simp add: setLast_def L)
  have "[h ..< h + Suc (Suc k)] = [h ..< h + Suc k] @ [h + Suc k]" by simp
  then have "run e (map Fire [h ..< h + Suc (Suc k)]) (typed s ts li 0 X h)
      = (case run e (map Fire [h ..< h + Suc k]) (typed s ts li 0 X h) of None \<Rightarrow> None
         | Some s' \<Rightarrow> run e [Fire (h + Suc k)] s')"
    by (simp only: map_append list.map run_append)
  with a b show ?case by simp
qed

lemma run_midTrace:
  "run env0 (Fire 1 # map Fire [5 ..< traceTick + 50]) (mount env0) = Some midTrace"
proof -
  let ?Ls = "scriptLines env0 FALLBACK"
  let ?L = "?Ls ! 1"
  obtain n where n: "length ?L = Suc n"
    using scriptLines_1_nonempty[of env0 FALLBACK] by (cases "length ?L") auto
  have fr: "\<forall>t \<in> set intervalTimers. fst t < 5" "\<forall>t \<in> set intervalTimers. fst t < 5 + Suc n"
    by (simp_all add: intervalTimers_fresh)
  have line1: "run env0 (map Fire [5 ..< 5 + Suc n]) (typed (mount env0) intervalTimers 1 1 ([''''] @ [take 1 ?L]) 5)
      = Some (typed (mount env0) intervalTimers (Suc 1) 0 ([''''] @ [?L]) (5 + Suc n))"
    using n by (intro run_typed_rest fr) simp_all
  have t2: "take 2 ?Ls = [''''] @ [?L]"
    by (simp add: scriptLines_def)
  have l2: "Suc 49 \<le> length (?Ls ! 2)"
    by (simp add: traceLine_def)
  have chars: "run env0 (map Fire [5 + Suc n ..< 5 + Suc n + Suc 49])
        (typed (mount env0) intervalTimers 2 0 ([''''] @ [?L]) (5 + Suc n))
      = Some (typed (mount env0) intervalTimers 2 (Suc 49) (([''''] @ [?L]) @ [take (Suc 49) (?Ls ! 2)])
                (5 + Suc n + Suc 49))"
    using fr(2) l2 by (intro run_typed_chars) simp_all
  have "run env0 (map Fire [5 ..< 5 + Suc n + Suc 49])
        (typed (mount env0) intervalTimers 1 1 ([''''] @ [take 1 ?L]) 5)
      = Some (typed (mount env0) intervalTimers 2 (Suc 49) (([''''] @ [?L]) @ [take (Suc 49) (?Ls ! 2)])
                (5 + Suc n + Suc 49))"
    using line1[unfolded Suc_1] chars by (subst run_fires_split) simp
  then have "run env0 (map Fire [5 ..< traceTick + 50])
        (typed (mount env0) intervalTimers 1 1 ['''', take 1 ?L] 5) = Some midTrace"
    using n by (simp add: midTrace_def traceTick_def t2)
  then show ?thesis
    by (simp only: run.simps first_tick option.case)
qed

lemma reachable_midTrace: "reachable env0 midTrace"
  using reach_mount run_midTrace by (rule run_reachable)

lemma typed_so_far:
  "take 2 (scriptLines env0 FALLBACK)
     = ['''', ''<span class=\"text-cyan-400\">$ traceroute target_host</span>'']"
  "take 2 (scriptLines env0 ipGood) = take 2 (scriptLines env0 FALLBACK)"
  "take 50 (scriptLines env0 FALLBACK ! 2) = ''<span class=\"text-yellow-400\">network_trace:</span''"
  "take 50 (scriptLines env0 ipGood ! 2) = ''<span class=\"text-yellow-400\">network_trace:</span''"
  "take 51 (scriptLines env0 ipGood ! 2) = ''<span class=\"text-yellow-400\">network_trace:</span>''"
  "scriptLines env0 ipGood ! 2
     = ''<span class=\"text-yellow-400\">network_trace:</span> <span class=\"text-white\">203.0.113.7 | Paris, IDF | ISP: ExampleNet</span>''"
  "scriptLines env0 FALLBACK ! 2
     = ''<span class=\"text-yellow-400\">network_trace:</span> <span class=\"text-white\">IP_MASKED | LOCATION_ENCRYPTED | NETWORK_SECURED</span>''"
  by (simp_all add: scriptLines_def traceLine_def ipGood_def FALLBACK_def)

lemma marker_typed:
  "\<not> includesStr '''' MARKER"
  "\<not> includesStr ''<span class=\"text-cyan-400\">$ traceroute target_host</span>'' MARKER"
  "includesStr ''<span class=\"text-yellow-400\">network_trace:</span'' MARKER"
  unfolding includesStr_def MARKER_def by code_simp+

lemma midFetched_eq:
  "midFetched =
     typed ((mount env0)\<lparr>fetchPending := False, ipInfoRef := ipGood\<rparr>) intervalTimers 2 50
       (take 2 (scriptLines env0 ipGood) @ [scriptLines env0 ipGood ! 2]) (traceTick + 50)"
  unfolding midFetched_def midTrace_def applyIpInfo_def typed_def typed_so_far(1,2,3)
  using marker_typed by (simp add: mount_eq initialState_def)

lemma step_midTrace: "step env0 FetchSettled midTrace = Some midFetched"
  unfolding midFetched_def
  by (intro step_fetch fetch_good) (simp_all add: midTrace_def typed_def mount_eq initialState_def)

lemma step_midFetched: "step env0 (Fire (traceTick + 50)) midFetched = Some midNext"
proof -
  let ?s = "(mount env0)\<lparr>fetchPending := False, ipInfoRef := ipGood\<rparr>"
  have fr: "\<forall>t \<in> set intervalTimers. fst t < traceTick + 50"
    by (intro intervalTimers_fresh) (simp add: traceTick_def)
  have c: "50 < length (scriptLines env0 (ipInfoRef ?s) ! 2)"
    by (simp add: traceLine_def ipGood_def)
  have "step env0 (Fire (traceTick + 50))
          (typed ?s intervalTimers 2 50 (take 2 (scriptLines env0 ipGood) @ [scriptLines env0 ipGood ! 2]) (traceTick + 50))
      = Some (typed ?s intervalTimers 2 (Suc 50)
                (setLast (if (50::nat) = 0
                          then (take 2 (scriptLines env0 ipGood) @ [scriptLines env0 ipGood ! 2]) @ ['''']
                          else take 2 (scriptLines env0 ipGood) @ [scriptLines env0 ipGood ! 2])
                   (take (Suc 50) (scriptLines env0 (ipInfoRef ?s) ! 2)))
                (Suc (traceTick + 50)))"
    using fr c by (intro typed_tick_char) simp_all
  then show ?thesis
    unfolding midFetched_eq midNext_def by (simp add: setLast_def add_ac)
qed

lemma mid_fields:
  "lineIndex midTrace = 2" "charIndex midTrace = 50" "fetchPending midTrace"
  "\<not> isInteractive midTrace" "\<not> isExitSequenceActive midTrace"
  "ipInfoRef midTrace = FALLBACK"
  "last (terminalLines midTrace) = take 50 (scriptLines env0 FALLBACK ! 2)"
  "lineIndex midFetched = 2" "charIndex midFetched = 50" "\<not> fetchPending midFetched"
  "\<not> isInteractive midFetched" "\<not> isExitSequenceActive midFetched"
  "ipInfoRef midFetched = ipGood"
  "last (terminalLines midFetched) = scriptLines env0 ipGood ! 2"
  "lineIndex midNext = 2" "charIndex midNext = 51"
  "last (terminalLines midNext) = take 51 (scriptLines env0 ipGood ! 2)"
  "mounted midFetched" "\<not> reloaded midFetched"
  "map_of (timers midFetched) (traceTick + 50) = Some (False, TypeCharacter)"
  unfolding midFetched_eq
  by (simp_all add: midTrace_def midNext_def typed_def mount_eq initialState_def intervalTimers_def
      traceTick_def)

lemma reachable_midFetched: "reachable env0 midFetched"
  using reachable_midTrace step_midTrace by (rule reach_step)

text \<open>
  Claim C7, as stated, fails: the string being iterated is not fixed and the typed text
  does not grow by one character per tick. \<^verbatim>\<open>typeCharacter\<close> rebuilds its array from
  \<^verbatim>\<open>ipInfoRef.current\<close> at every call (lines 435-453), and the callback of the fetch
  (lines 508-515) rewrites every line on screen that contains \<^verbatim>\<open>network_trace:\<close>. With
  50 characters of the line that carries the IP information typed, the fetch puts the
  whole rewritten line of 126 characters on screen: it is not a prefix of the line that
  was being typed and not the first 50 characters of anything being iterated. The next
  tick cuts it back to 51 characters.
\<close>

theorem typed_text_rewritten:
  \<open>reachable env0 midTrace \<and> lineIndex midTrace = 2 \<and> charIndex midTrace = 50 \<and>
   last (terminalLines midTrace) = ''<span class="text-yellow-400">network_trace:</span'' \<and>
   last (terminalLines midTrace) = take 50 (scriptLines env0 (ipInfoRef midTrace) ! 2) \<and>
   step env0 FetchSettled midTrace = Some midFetched \<and>
   lineIndex midFetched = 2 \<and> charIndex midFetched = 50 \<and>
   last (terminalLines midFetched)
     = ''<span class="text-yellow-400">network_trace:</span> <span class="text-white">203.0.113.7 | Paris, IDF | ISP: ExampleNet</span>'' \<and>
   length (last (terminalLines midFetched)) = 126 \<and>
   \<not> prefix (last (terminalLines midFetched)) (scriptLines env0 (ipInfoRef midTrace) ! 2) \<and>
   last (terminalLines midFetched) \<noteq> take 50 (scriptLines env0 (ipInfoRef midFetched) ! 2) \<and>
   step env0 (Fire (traceTick + 50)) midFetched = Some midNext \<and>
   charIndex midNext = 51 \<and>
   last (terminalLines midNext) = ''<span class="text-yellow-400">network_trace:</span>'' \<and>
   length (last (terminalLines midNext)) = 51\<close>
proof -
  have a: \<open>\<not> prefix ''<span class="text-yellow-400">network_trace:</span> <span class="text-white">203.0.113.7 | Paris, IDF | ISP: ExampleNet</span>''
      ''<span class="text-yellow-400">network_trace:</span> <span class="text-white">IP_MASKED | LOCATION_ENCRYPTED | NETWORK_SECURED</span>''\<close>
    by simp
  show ?thesis
    using reachable_midTrace step_midTrace step_midFetched a
    by (simp add: mid_fields typed_so_far del: scriptLines_nth_trace)
qed

text \<open>
  Claim C7, amended. In both typing animations the tick that types character \<open>k\<close> of a
  non-empty scripted line \<open>L\<close> takes its step, leaves \<^verbatim>\<open>L.slice(0, k + 1)\<close> as the last
  element of \<^verbatim>\<open>terminalLines\<close> and advances the character index by one on the same
  line, where \<open>L\<close> is the line of the array the tick iterates: for the initial sequence the
  array that \<^verbatim>\<open>typeCharacter\<close> rebuilds from \<^verbatim>\<open>ipInfoRef.current\<close>, for the exit sequence
  the fixed \<^verbatim>\<open>exitSequence\<close>, whose first character is typed by the call the initial timeout
  of \<^verbatim>\<open>executeExit\<close> makes. Between two ticks the last element stays the first \<open>k\<close>
  characters of that line, with one exception in the initial sequence: once the fetch has
  settled while the part typed so far contains \<^verbatim>\<open>network_trace:\<close>, the last element is
  the whole rewritten trace line, until the next tick cuts it back. In the exit sequence
  the last element is always the first \<open>k\<close> characters of the fixed line.
\<close>

theorem typed_text_is_prefix:
  assumes "reachable e s"
  shows "(mounted s \<and> \<not> reloaded s \<and> map_of (timers s) h = Some (r, TypeCharacter) \<and>
          lineIndex s < length (scriptLines e (ipInfoRef s)) \<and>
          charIndex s < length (scriptLines e (ipInfoRef s) ! lineIndex s) \<longrightarrow>
            (\<exists>s'. step e (Fire h) s = Some s' \<and> terminalLines s' \<noteq> [] \<and>
               last (terminalLines s') = take (Suc (charIndex s)) (scriptLines e (ipInfoRef s) ! lineIndex s) \<and>
               charIndex s' = Suc (charIndex s) \<and> lineIndex s' = lineIndex s)) \<and>
         (mounted s \<and> \<not> reloaded s \<and> map_of (timers s) h = Some (r, TypeExitSequence) \<and>
          exitLineIndex s < length exitSequence \<and>
          exitCharIndex s < length (exitSequence ! exitLineIndex s) \<longrightarrow>
            (\<exists>s'. step e (Fire h) s = Some s' \<and> terminalLines s' \<noteq> [] \<and>
               last (terminalLines s') = take (Suc (exitCharIndex s)) (exitSequence ! exitLineIndex s) \<and>
               exitCharIndex s' = Suc (exitCharIndex s) \<and> exitLineIndex s' = exitLineIndex s)) \<and>
         (mounted s \<and> \<not> reloaded s \<and> map_of (timers s) h = Some (r, ExitInitial) \<longrightarrow>
            (\<exists>s'. step e (Fire h) s = Some s' \<and> terminalLines s' \<noteq> [] \<and>
               last (terminalLines s') = take (Suc 0) (exitSequence ! 0) \<and>
               exitCharIndex s' = Suc 0 \<and> exitLineIndex s' = 0)) \<and>
         (\<not> isInteractive s \<and> \<not> isExitSequenceActive s \<and> 0 < charIndex s \<longrightarrow>
            lineIndex s < length (scriptLines e (ipInfoRef s)) \<and> terminalLines s \<noteq> [] \<and>
            (last (terminalLines s) = take (charIndex s) (scriptLines e (ipInfoRef s) ! lineIndex s) \<or>
             \<not> fetchPending s \<and>
             includesStr (take (charIndex s) (scriptLines e (ipInfoRef s) ! lineIndex s)) MARKER \<and>
             last (terminalLines s) = scriptLines e (ipInfoRef s) ! 2)) \<and>
         (0 < exitCharIndex s \<longrightarrow>
            isExitSequenceActive s \<and> exitLineIndex s < length exitSequence \<and> terminalLines s \<noteq> [] \<and>
            last (terminalLines s) = take (exitCharIndex s) (exitSequence ! exitLineIndex s))"
proof (intro conjI impI)
  assume a: "mounted s \<and> \<not> reloaded s \<and> map_of (timers s) h = Some (r, TypeCharacter) \<and>
      lineIndex s < length (scriptLines e (ipInfoRef s)) \<and>
      charIndex s < length (scriptLines e (ipInfoRef s) ! lineIndex s)"
  then have "mounted s" "\<not> reloaded s" "map_of (timers s) h = Some (r, TypeCharacter)"
      "lineIndex s < length (scriptLines e (ipInfoRef s))"
      "charIndex s < length (scriptLines e (ipInfoRef s) ! lineIndex s)"
    by simp_all
  from typeCharacter_prefix[OF assms this]
  show "\<exists>s'. step e (Fire h) s = Some s' \<and> terminalLines s' \<noteq> [] \<and>
      last (terminalLines s') = take (Suc (charIndex s)) (scriptLines e (ipInfoRef s) ! lineIndex s) \<and>
      charIndex s' = Suc (charIndex s) \<and> lineIndex s' = lineIndex s"
    by blast
next
  assume a: "mounted s \<and> \<not> reloaded s \<and> map_of (timers s) h = Some (r, TypeExitSequence) \<and>
      exitLineIndex s < length exitSequence \<and>
      exitCharIndex s < length (exitSequence ! exitLineIndex s)"
  then have "mounted s" "\<not> reloaded s" "map_of (timers s) h = Some (r, TypeExitSequence)"
      "exitLineIndex s < length exitSequence"
      "exitCharIndex s < length (exitSequence ! exitLineIndex s)"
    by simp_all
  from typeExitSequence_prefix[OF assms this]
  show "\<exists>s'. step e (Fire h) s = Some s' \<and> terminalLines s' \<noteq> [] \<and>
      last (terminalLines s') = take (Suc (exitCharIndex s)) (exitSequence ! exitLineIndex s) \<and>
      exitCharIndex s' = Suc (exitCharIndex s) \<and> exitLineIndex s' = exitLineIndex s"
    by blast
next
  assume "mounted s \<and> \<not> reloaded s \<and> map_of (timers s) h = Some (r, ExitInitial)"
  then have "mounted s" "\<not> reloaded s" "map_of (timers s) h = Some (r, ExitInitial)"
    by simp_all
  with assms show "\<exists>s'. step e (Fire h) s = Some s' \<and> terminalLines s' \<noteq> [] \<and>
      last (terminalLines s') = take (Suc 0) (exitSequence ! 0) \<and>
      exitCharIndex s' = Suc 0 \<and> exitLineIndex s' = 0"
    by (rule exitInitial_prefix)
next
  assume a: "\<not> isInteractive s \<and> \<not> isExitSequenceActive s \<and> 0 < charIndex s"
  from reachable_PInv[OF assms] a
  show "lineIndex s < length (scriptLines e (ipInfoRef s))" "terminalLines s \<noteq> []"
    "last (terminalLines s) = take (charIndex s) (scriptLines e (ipInfoRef s) ! lineIndex s) \<or>
     \<not> fetchPending s \<and>
     includesStr (take (charIndex s) (scriptLines e (ipInfoRef s) ! lineIndex s)) MARKER \<and>
     last (terminalLines s) = scriptLines e (ipInfoRef s) ! 2"
    by (simp_all add: PInv_def length_scriptLines)
next
  assume a: "0 < exitCharIndex s"
  from reachable_PInv[OF assms] a
  show "isExitSequenceActive s" "exitLineIndex s < length exitSequence" "terminalLines s \<noteq> []"
    "last (terminalLines s) = take (exitCharIndex s) (exitSequence ! exitLineIndex s)"
    by (simp_all add: PInv_def)
qed

theorem typed_text_is_prefix_witness:
  \<open>reachable env0 (mount env0) \<and> map_of (timers (mount env0)) 1 = Some (False, TypeCharacter) \<and>
   (\<exists>s'. step env0 (Fire 1) (mount env0) = Some s' \<and> last (terminalLines s') = ''<'' \<and> charIndex s' = 1) \<and>
   reachable env0 (exitStart env0 clock0) \<and>
   (\<exists>s'. step env0 (Fire (8 + typingTicks env0)) (exitStart env0 clock0) = Some s' \<and>
      last (terminalLines s') = ''<s'' \<and> exitCharIndex s' = 2) \<and>
   reachable env0 (flipState env0 clock0) \<and>
   (\<exists>s'. step env0 (Fire (6 + typingTicks env0)) (flipState env0 clock0) = Some s' \<and>
      last (terminalLines s') = ''<'' \<and> exitCharIndex s' = 1) \<and>
   reachable env0 midTrace \<and> charIndex midTrace = 50 \<and> fetchPending midTrace \<and>
   last (terminalLines midTrace) = ''<span class="text-yellow-400">network_trace:</span'' \<and>
   reachable env0 midFetched \<and> charIndex midFetched = 50 \<and> \<not> fetchPending midFetched \<and>
   includesStr (take 50 (scriptLines env0 (ipInfoRef midFetched) ! 2)) MARKER \<and>
   last (terminalLines midFetched)
     = ''<span class="text-yellow-400">network_trace:</span> <span class="text-white">203.0.113.7 | Paris, IDF | ISP: ExampleNet</span>'' \<and>
   (\<exists>s'. step env0 (Fire (traceTick + 50)) midFetched = Some s' \<and>
      last (terminalLines s') = ''<span class="text-yellow-400">network_trace:</span>'' \<and> charIndex s' = 51) \<and>
   exitCharIndex (exitStart env0 clock0) = 1 \<and> isExitSequenceActive (exitStart env0 clock0) \<and>
   last (terminalLines (exitStart env0 clock0)) = ''<''\<close>
proof -
  have a: "mounted (mount env0) \<and> \<not> reloaded (mount env0) \<and>
      map_of (timers (mount env0)) 1 = Some (False, TypeCharacter) \<and>
      lineIndex (mount env0) < length (scriptLines env0 (ipInfoRef (mount env0))) \<and>
      charIndex (mount env0) < length (scriptLines env0 (ipInfoRef (mount env0)) ! lineIndex (mount env0))"
    using first_lines(2) by (simp add: mount_eq initialState_def length_scriptLines)
  have a': "lineIndex (mount env0) = 1" "charIndex (mount env0) = 0" "ipInfoRef (mount env0) = FALLBACK"
    by (simp_all add: mount_eq initialState_def)
  have b: "mounted (exitStart env0 clock0) \<and> \<not> reloaded (exitStart env0 clock0) \<and>
      map_of (timers (exitStart env0 clock0)) (8 + typingTicks env0) = Some (False, TypeExitSequence) \<and>
      exitLineIndex (exitStart env0 clock0) < length exitSequence \<and>
      exitCharIndex (exitStart env0 clock0) < length (exitSequence ! exitLineIndex (exitStart env0 clock0))"
    using first_lines(5) exitStart_pending[of env0 clock0]
    by (simp add: exitStart_fields length_exitSequence)
  have c: "mounted (flipState env0 clock0) \<and> \<not> reloaded (flipState env0 clock0) \<and>
      map_of (timers (flipState env0 clock0)) (6 + typingTicks env0) = Some (False, ExitInitial)"
    by (simp add: flip_fields intervalTimers_def)
  have d: "mounted midFetched \<and> \<not> reloaded midFetched \<and>
      map_of (timers midFetched) (traceTick + 50) = Some (False, TypeCharacter) \<and>
      lineIndex midFetched < length (scriptLines env0 (ipInfoRef midFetched)) \<and>
      charIndex midFetched < length (scriptLines env0 (ipInfoRef midFetched) ! lineIndex midFetched)"
    by (simp add: mid_fields length_scriptLines typed_so_far(6) del: scriptLines_nth_trace)
  have 1: "\<exists>s'. step env0 (Fire 1) (mount env0) = Some s' \<and> last (terminalLines s') = ''<'' \<and> charIndex s' = 1"
    using typed_text_is_prefix[OF reach_mount[of env0], where h = 1 and r = False] a
      first_lines(1)
    unfolding a' by auto
  have 2: "\<exists>s'. step env0 (Fire (8 + typingTicks env0)) (exitStart env0 clock0) = Some s' \<and>
      last (terminalLines s') = ''<s'' \<and> exitCharIndex s' = 2"
    using typed_text_is_prefix[OF reachable_exitStart[of env0 clock0],
        where h = "8 + typingTicks env0" and r = False] b first_lines(4)
    unfolding exitStart_fields by (auto simp: numeral_2_eq_2)
  have 3: "\<exists>s'. step env0 (Fire (6 + typingTicks env0)) (flipState env0 clock0) = Some s' \<and>
      last (terminalLines s') = ''<'' \<and> exitCharIndex s' = 1"
    using typed_text_is_prefix[OF reachable_flip[of env0 clock0],
        where h = "6 + typingTicks env0" and r = False] c first_lines(3)
    by auto
  have 4: \<open>\<exists>s'. step env0 (Fire (traceTick + 50)) midFetched = Some s' \<and>
      last (terminalLines s') = ''<span class="text-yellow-400">network_trace:</span>'' \<and> charIndex s' = 51\<close>
    using typed_text_is_prefix[OF reachable_midFetched, where h = "traceTick + 50" and r = False] d
    unfolding mid_fields by (auto simp: typed_so_far(5) simp del: scriptLines_nth_trace)
  have 5: "includesStr (take 50 (scriptLines env0 (ipInfoRef midFetched) ! 2)) MARKER"
    using typed_text_is_prefix[OF reachable_midFetched, where h = 0 and r = False]
    by (simp add: mid_fields typed_so_far del: scriptLines_nth_trace)
  have 6: "isExitSequenceActive (exitStart env0 clock0) \<and>
      last (terminalLines (exitStart env0 clock0)) = take (exitCharIndex (exitStart env0 clock0))
        (exitSequence ! exitLineIndex (exitStart env0 clock0))"
    using typed_text_is_prefix[OF reachable_exitStart[of env0 clock0], where h = 0 and r = False]
    by (simp add: exitStart_fields)
  have 7: "exitCharIndex (exitStart env0 clock0) = 1" "isExitSequenceActive (exitStart env0 clock0)"
      "last (terminalLines (exitStart env0 clock0)) = ''<''"
    using 6 first_lines(3) by (simp_all add: exitStart_fields)
  have 8: \<open>charIndex midTrace = 50\<close> \<open>fetchPending midTrace\<close>
      \<open>last (terminalLines midTrace) = ''<span class="text-yellow-400">network_trace:</span''\<close>
      \<open>charIndex midFetched = 50\<close> \<open>\<not> fetchPending midFetched\<close>
      \<open>last (terminalLines midFetched)
        = ''<span class="text-yellow-400">network_trace:</span> <span class="text-white">203.0.113.7 | Paris, IDF | ISP: ExampleNet</span>''\<close>
    by (simp_all add: mid_fields typed_so_far del: scriptLines_nth_trace)
  have 9: "map_of (timers (mount env0)) 1 = Some (False, TypeCharacter)"
    using a by blast
  from 1 2 3 4 5 7 8 9 reach_mount[of env0] reachable_exitStart[of env0 clock0]
    reachable_flip[of env0 clock0] reachable_midTrace reachable_midFetched
  show ?thesis by blast
qed

end
